theory Spec2Isabelle
  imports Complex_Main "HOL-Library.Multiset" "HOL-Library.Monad_Syntax"
begin

section \<open>Data model of \<^verbatim>\<open>utils/ProjectDataParser.tsx\<close>\<close>

text \<open>
  The module sorts a list of goal projects by priority tier and then hands the money
  earned so far to the projects in that order, computing a completion percentage for
  each one.

  The loop of the allocator is modelled twice. In the first model
  (\<open>loopBody\<close>, \<open>distributeFundsAndCalculateProgress\<close>) a JavaScript
  \<^verbatim>\<open>number\<close> is a \<^typ>\<open>real\<close> and the arithmetic is exact; the properties
  of the order of funding, of the shape of the result and of the store are stated on
  it. In the second model (\<open>loopBody64\<close>, \<open>distributeFundsAndCalculateProgress64\<close>)
  every arithmetic operation rounds to the nearest double, as the \<^verbatim>\<open>Number\<close>
  type does; the properties of the values of the percentages (their rounding and range,
  and the conservation of the pool) are stated on it, since the two models can differ
  in the last hundredth there. \<^verbatim>\<open>NaN\<close> and the infinities, which a JSON file cannot
  hold, are in neither model. A string is a \<^typ>\<open>string\<close>. The union type of the
  \<^verbatim>\<open>priority\<close> field exists only at compile time (the records arrive through a
  type assertion on imported JSON), so at run time the field is an arbitrary string and
  is modelled as one.
\<close>

record ProjectFromJson =
  name :: string
  details :: string
  amount :: real
  priority :: string
  start_date :: string

record IProject = ProjectFromJson +
  progress :: real

text \<open>
  \<^verbatim>\<open>priorityOrder\<close> is an object literal with four own properties. A lookup
  with any other key yields \<^verbatim>\<open>undefined\<close> (or an inherited member of
  \<^verbatim>\<open>Object.prototype\<close>), which the subtraction of the comparator turns into
  \<^verbatim>\<open>NaN\<close>; both are \<^const>\<open>None\<close> here.
\<close>

definition priorityOrder :: "string \<rightharpoonup> int" where
  "priorityOrder =
     map_of [(''critical'', 1), (''high'', 2), (''medium'', 3), (''low'', 4)]"

text \<open>The arrow function handed to \<^verbatim>\<open>sort\<close>; \<^const>\<open>None\<close> is \<^verbatim>\<open>NaN\<close>.\<close>

definition comparePriority :: "'a ProjectFromJson_scheme \<Rightarrow> 'a ProjectFromJson_scheme \<Rightarrow> int option" where
  "comparePriority a b =
     (case (priorityOrder (priority a), priorityOrder (priority b)) of
        (Some x, Some y) \<Rightarrow> Some (x - y)
      | _ \<Rightarrow> None)"

text \<open>
  \<^verbatim>\<open>Array.prototype.sort\<close> with a comparator: the abstract operation
  SortCompare of ECMAScript replaces a \<^verbatim>\<open>NaN\<close> result by \<^verbatim>\<open>+0\<close>, and the
  sort is stable. For a consistent comparator the result is fixed by the language; it
  is computed here by a stable insertion sort. For an inconsistent comparator the
  order is implementation-defined, and the insertion sort is one admissible outcome
  (the call returns normally in any case).
\<close>

definition SortCompare :: "('a \<Rightarrow> 'a \<Rightarrow> int option) \<Rightarrow> 'a \<Rightarrow> 'a \<Rightarrow> int" where
  "SortCompare comparator x y = (case comparator x y of None \<Rightarrow> 0 | Some v \<Rightarrow> v)"

fun insertSorted :: "('a \<Rightarrow> 'a \<Rightarrow> int option) \<Rightarrow> 'a \<Rightarrow> 'a list \<Rightarrow> 'a list" where
  "insertSorted comparator x [] = [x]"
| "insertSorted comparator x (y # ys) =
     (if SortCompare comparator x y \<le> 0 then x # y # ys
      else y # insertSorted comparator x ys)"

fun arraySort :: "('a \<Rightarrow> 'a \<Rightarrow> int option) \<Rightarrow> 'a list \<Rightarrow> 'a list" where
  "arraySort comparator [] = []"
| "arraySort comparator (x # xs) = insertSorted comparator x (arraySort comparator xs)"

text \<open>
  The outcome of a call is a value or a thrown error. The module declares no error
  class and contains no \<^verbatim>\<open>throw\<close>; the one constructor below is the error the
  specification names, so that its absence from every branch can be stated.
\<close>

datatype error = InvalidPriorityError

definition sortProjectsByPriority :: "ProjectFromJson list \<Rightarrow> error + ProjectFromJson list" where
  "sortProjectsByPriority projects = Inr (arraySort comparePriority projects)"

text \<open>
  \<^verbatim>\<open>parseFloat(x.toFixed(2))\<close>: \<^verbatim>\<open>toFixed\<close> prints the sign and then the
  integer \<open>n\<close> for which \<open>n / 100\<close> is closest to the magnitude, the larger one on a
  tie; from \<open>10\<^sup>2\<^sup>1\<close> on it prints the number itself.
\<close>

definition toFixed2 :: "real \<Rightarrow> real" where
  "toFixed2 x =
     (if 10 ^ 21 \<le> \<bar>x\<bar> then x
      else if x < 0 then - (of_int \<lfloor>(- x) * 100 + 1 / 2\<rfloor> / 100)
      else of_int \<lfloor>x * 100 + 1 / 2\<rfloor> / 100)"

text \<open>The object spread \<^verbatim>\<open>{ ...project, progress: v }\<close>: a new record.\<close>

definition withProgress :: "ProjectFromJson \<Rightarrow> real \<Rightarrow> IProject" where
  "withProgress project v =
     \<lparr>name = name project, details = details project, amount = amount project,
      priority = priority project, start_date = start_date project, progress = v\<rparr>"

text \<open>
  The money handed to one project in one iteration of the loop
  (\<^verbatim>\<open>moneyAllocatedToProject\<close>; nothing in the two branches that do not
  declare it).
\<close>

definition moneyAllocated :: "real \<Rightarrow> ProjectFromJson \<Rightarrow> real" where
  "moneyAllocated remainingEarnedMoney project =
     (if amount project \<le> 0 then 0
      else if remainingEarnedMoney > 0 then min remainingEarnedMoney (amount project)
      else 0)"

text \<open>
  One iteration of the \<^verbatim>\<open>for\<close> loop of
  \<^verbatim>\<open>distributeFundsAndCalculateProgress\<close>: from the running remainder and the
  project to the new remainder and the record that is pushed.
\<close>

definition loopBody :: "real \<Rightarrow> ProjectFromJson \<Rightarrow> real \<times> IProject" where
  "loopBody remainingEarnedMoney project =
     (let currentProjectWithProgress = withProgress project 0;
          (remaining', current') =
            (if amount project \<le> 0 then
               (remainingEarnedMoney, currentProjectWithProgress\<lparr>progress := 100\<rparr>)
             else if remainingEarnedMoney > 0 then
               (let moneyAllocatedToProject = min remainingEarnedMoney (amount project)
                in (remainingEarnedMoney - moneyAllocatedToProject,
                    currentProjectWithProgress
                      \<lparr>progress := moneyAllocatedToProject / amount project * 100\<rparr>))
             else (remainingEarnedMoney, currentProjectWithProgress))
      in (remaining',
          current'\<lparr>progress := min 100 (max 0 (toFixed2 (progress current')))\<rparr>))"

fun distributeLoop :: "real \<Rightarrow> IProject list \<Rightarrow> ProjectFromJson list \<Rightarrow> IProject list" where
  "distributeLoop remainingEarnedMoney projectsWithCalculatedProgress [] =
     projectsWithCalculatedProgress"
| "distributeLoop remainingEarnedMoney projectsWithCalculatedProgress (project # rest) =
     (case loopBody remainingEarnedMoney project of
        (remaining', current) \<Rightarrow>
          distributeLoop remaining' (projectsWithCalculatedProgress @ [current]) rest)"

definition distributeFundsAndCalculateProgress :: "ProjectFromJson list \<Rightarrow> real \<Rightarrow> IProject list" where
  "distributeFundsAndCalculateProgress sortedProjects totalEarnedMoney =
     distributeLoop totalEarnedMoney [] sortedProjects"

text \<open>
  \<^verbatim>\<open>processProjectsWithProgress\<close> after its two awaits: the JSON list and the
  total fetched from the time tracker are parameters.
\<close>

definition processProjectsWithProgress :: "ProjectFromJson list \<Rightarrow> real \<Rightarrow> error + IProject list" where
  "processProjectsWithProgress rawProjects totalEarned =
     (case sortProjectsByPriority rawProjects of
        Inl e \<Rightarrow> Inl e
      | Inr sortedProjects \<Rightarrow>
          Inr (distributeFundsAndCalculateProgress sortedProjects totalEarned))"

section \<open>Numbers as doubles\<close>

text \<open>
  The \<^verbatim>\<open>Number\<close> type of ECMAScript is IEEE 754 binary64: the result of an arithmetic
  operation is the exact result rounded to the nearest double, to the one with an even
  significand on a tie, and \<^verbatim>\<open>parseFloat\<close> yields the double nearest to the decimal
  it reads. A double is an integer multiple of a power of two: of \<open>2\<^sup>e\<^sup>-\<^sup>5\<^sup>2\<close> when its
  magnitude lies in \<open>[2\<^sup>e, 2\<^sup>e\<^sup>+\<^sup>1)\<close>, and of \<open>2\<^sup>-\<^sup>1\<^sup>0\<^sup>7\<^sup>4\<close> below \<open>2\<^sup>-\<^sup>1\<^sup>0\<^sup>2\<^sup>2\<close>.
  Overflow to an infinity is left out; no operation of the loop can overflow, since
  its quotient is at most 1, its product at most 100 and its difference at most the
  remainder it starts from.
\<close>

definition pow2 :: "int \<Rightarrow> real" where
  "pow2 k = (if 0 \<le> k then 2 ^ nat k else 1 / 2 ^ nat (- k))"

definition roundTiesToEven :: "real \<Rightarrow> int" where
  "roundTiesToEven y =
     (let f = \<lfloor>y\<rfloor>
      in if y - of_int f < 1 / 2 then f
         else if 1 / 2 < y - of_int f then f + 1
         else if even f then f else f + 1)"

definition exponent :: "real \<Rightarrow> int" where
  "exponent x = \<lfloor>log 2 \<bar>x\<bar>\<rfloor>"

definition quantum :: "real \<Rightarrow> real" where
  "quantum x = pow2 (max (exponent x - 52) (- 1074))"

definition roundToMultiple :: "real \<Rightarrow> real \<Rightarrow> real" where
  "roundToMultiple q x = of_int (roundTiesToEven (x / q)) * q"

definition fl64 :: "real \<Rightarrow> real" where
  "fl64 x = (if x = 0 then 0 else roundToMultiple (quantum x) x)"

text \<open>Every double is a multiple of the smallest one.\<close>

definition onGrid :: "real \<Rightarrow> bool" where
  "onGrid x = (\<exists>k::int. x = of_int k * pow2 (- 1074))"

text \<open>
  The loop of \<^verbatim>\<open>distributeFundsAndCalculateProgress\<close> once more, with the division
  and the multiplication of line 104, the subtraction of line 107 and the
  \<^verbatim>\<open>parseFloat\<close> of line 111 rounding to the nearest double. \<^verbatim>\<open>Math.min\<close>,
  \<^verbatim>\<open>Math.max\<close> and the comparisons are exact on doubles, and \<^verbatim>\<open>toFixed\<close> works
  on the exact value of its argument.
\<close>

definition loopBody64 :: "real \<Rightarrow> ProjectFromJson \<Rightarrow> real \<times> IProject" where
  "loopBody64 remainingEarnedMoney project =
     (let currentProjectWithProgress = withProgress project 0;
          (remaining', current') =
            (if amount project \<le> 0 then
               (remainingEarnedMoney, currentProjectWithProgress\<lparr>progress := 100\<rparr>)
             else if remainingEarnedMoney > 0 then
               (let moneyAllocatedToProject = min remainingEarnedMoney (amount project)
                in (fl64 (remainingEarnedMoney - moneyAllocatedToProject),
                    currentProjectWithProgress
                      \<lparr>progress := fl64 (fl64 (moneyAllocatedToProject / amount project) * 100)\<rparr>))
             else (remainingEarnedMoney, currentProjectWithProgress))
      in (remaining',
          current'\<lparr>progress := min 100 (max 0 (fl64 (toFixed2 (progress current'))))\<rparr>))"

fun distributeLoop64 :: "real \<Rightarrow> IProject list \<Rightarrow> ProjectFromJson list \<Rightarrow> IProject list" where
  "distributeLoop64 remainingEarnedMoney projectsWithCalculatedProgress [] =
     projectsWithCalculatedProgress"
| "distributeLoop64 remainingEarnedMoney projectsWithCalculatedProgress (project # rest) =
     (case loopBody64 remainingEarnedMoney project of
        (remaining', current) \<Rightarrow>
          distributeLoop64 remaining' (projectsWithCalculatedProgress @ [current]) rest)"

definition distributeFundsAndCalculateProgress64 :: "ProjectFromJson list \<Rightarrow> real \<Rightarrow> IProject list" where
  "distributeFundsAndCalculateProgress64 sortedProjects totalEarnedMoney =
     distributeLoop64 totalEarnedMoney [] sortedProjects"

section \<open>Observations on a run\<close>

text \<open>
  The value of the local variable \<^verbatim>\<open>remainingEarnedMoney\<close> after the loop has
  run through a list of projects.
\<close>

definition remainingAfter :: "real \<Rightarrow> ProjectFromJson list \<Rightarrow> real" where
  "remainingAfter totalEarnedMoney projects =
     foldl (\<lambda>remaining project. fst (loopBody remaining project)) totalEarnedMoney projects"

text \<open>
  The value of \<^verbatim>\<open>currentProjectWithProgress.progress\<close> when control reaches the
  rounding statement that ends the loop body, in the model with exact arithmetic.
\<close>

definition rawProgress :: "real \<Rightarrow> ProjectFromJson \<Rightarrow> real" where
  "rawProgress remainingEarnedMoney project =
     (if amount project \<le> 0 then 100
      else if remainingEarnedMoney > 0 then
        min remainingEarnedMoney (amount project) / amount project * 100
      else 0)"

text \<open>Both tiers are among the four of \<^const>\<open>priorityOrder\<close>, the first ranked no later.\<close>

definition tierLe :: "'a ProjectFromJson_scheme \<Rightarrow> 'a ProjectFromJson_scheme \<Rightarrow> bool" where
  "tierLe a b =
     (case (priorityOrder (priority a), priorityOrder (priority b)) of
        (Some x, Some y) \<Rightarrow> x \<le> y
      | _ \<Rightarrow> False)"

text \<open>
  On doubles: the remainder after the loop has run through a list of projects, the
  double that reaches the rounding statement, and the largest amount of a list (0 when
  no amount is positive).
\<close>

definition remainingAfter64 :: "real \<Rightarrow> ProjectFromJson list \<Rightarrow> real" where
  "remainingAfter64 totalEarnedMoney projects =
     foldl (\<lambda>remaining project. fst (loopBody64 remaining project)) totalEarnedMoney projects"

definition rawProgress64 :: "real \<Rightarrow> ProjectFromJson \<Rightarrow> real" where
  "rawProgress64 remainingEarnedMoney project =
     (if amount project \<le> 0 then 100
      else if remainingEarnedMoney > 0 then
        fl64 (fl64 (min remainingEarnedMoney (amount project) / amount project) * 100)
      else 0)"

definition largestAmount :: "ProjectFromJson list \<Rightarrow> real" where
  "largestAmount projects = foldr max (map amount projects) 0"

section \<open>The same two functions on a store\<close>

text \<open>
  Arrays and objects are references in JavaScript, so whether a function changes its
  arguments is a question about the store. A store is a list of cells and a reference
  is an index into it; allocation appends a cell. An array cell holds the references of
  its elements; an object cell holds the five fields of a project and its
  \<^verbatim>\<open>progress\<close> property, if it has one. A read through a reference that
  does not hold a cell of the expected kind is \<^const>\<open>None\<close>: the static types
  of the module exclude it.
\<close>

type_synonym ref = nat

datatype cell =
    ArrayCell "ref list"
  | ObjectCell ProjectFromJson "real option"

type_synonym heap = "cell list"

definition alloc :: "heap \<Rightarrow> cell \<Rightarrow> ref \<times> heap" where
  "alloc h c = (length h, h @ [c])"

definition lookup :: "heap \<Rightarrow> ref \<Rightarrow> cell option" where
  "lookup h r = (if r < length h then Some (h ! r) else None)"

definition fieldsAt :: "heap \<Rightarrow> ref \<Rightarrow> ProjectFromJson option" where
  "fieldsAt h r = (case lookup h r of Some (ObjectCell f _) \<Rightarrow> Some f | _ \<Rightarrow> None)"

definition objectAt :: "heap \<Rightarrow> ref \<Rightarrow> IProject option" where
  "objectAt h r =
     (case lookup h r of Some (ObjectCell f (Some v)) \<Rightarrow> Some (withProgress f v) | _ \<Rightarrow> None)"

text \<open>The list of projects, and the list of results, that an array denotes in a store.\<close>

definition projectsAt :: "heap \<Rightarrow> ref \<Rightarrow> ProjectFromJson list option" where
  "projectsAt h a =
     (case lookup h a of Some (ArrayCell rs) \<Rightarrow> those (map (fieldsAt h) rs) | _ \<Rightarrow> None)"

definition resultsAt :: "heap \<Rightarrow> ref \<Rightarrow> IProject list option" where
  "resultsAt h a =
     (case lookup h a of Some (ArrayCell rs) \<Rightarrow> those (map (objectAt h) rs) | _ \<Rightarrow> None)"

text \<open>Reading and assigning \<^verbatim>\<open>o.progress\<close>, and \<^verbatim>\<open>a.push(x)\<close>.\<close>

definition getProgress :: "heap \<Rightarrow> ref \<Rightarrow> real option" where
  "getProgress h r = (case lookup h r of Some (ObjectCell f (Some v)) \<Rightarrow> Some v | _ \<Rightarrow> None)"

definition setProgress :: "heap \<Rightarrow> ref \<Rightarrow> real \<Rightarrow> heap option" where
  "setProgress h r v =
     (case lookup h r of
        Some (ObjectCell f _) \<Rightarrow> Some (h[r := ObjectCell f (Some v)])
      | _ \<Rightarrow> None)"

definition push :: "heap \<Rightarrow> ref \<Rightarrow> ref \<Rightarrow> heap option" where
  "push h a x =
     (case lookup h a of
        Some (ArrayCell rs) \<Rightarrow> Some (h[a := ArrayCell (rs @ [x])])
      | _ \<Rightarrow> None)"

text \<open>
  \<^verbatim>\<open>[...projects].sort(cmp)\<close>: the spread allocates an array with the same
  element references, \<^verbatim>\<open>sort\<close> reorders that array in place and returns it. The
  comparator reads the \<^verbatim>\<open>priority\<close> of the two objects it is given.
\<close>

definition sortProjectsByPriorityH :: "heap \<Rightarrow> ref \<Rightarrow> (ref \<times> heap) option" where
  "sortProjectsByPriorityH h projects =
     (case lookup h projects of
        Some (ArrayCell rs) \<Rightarrow>
          (case those (map (fieldsAt h) rs) of
             Some ps \<Rightarrow>
               (let (copy, h1) = alloc h (ArrayCell rs);
                    sorted = map fst (arraySort (\<lambda>x y. comparePriority (snd x) (snd y))
                                        (zip rs ps))
                in Some (copy, h1[copy := ArrayCell sorted]))
           | None \<Rightarrow> None)
      | _ \<Rightarrow> None)"

text \<open>
  One iteration of the loop on the store: the spread allocates the new object, the
  branches and the rounding statement assign its \<^verbatim>\<open>progress\<close>, and the
  reference is pushed onto the result array.
\<close>

definition loopBodyH :: "ref \<Rightarrow> real \<Rightarrow> heap \<Rightarrow> ref \<Rightarrow> (real \<times> heap) option" where
  "loopBodyH projectsWithCalculatedProgress remainingEarnedMoney h projectRef =
     do {
       project \<leftarrow> fieldsAt h projectRef;
       let (currentProjectWithProgress, h1) = alloc h (ObjectCell project (Some 0));
       (remaining', h2) \<leftarrow>
         (if amount project \<le> 0 then
            do { h' \<leftarrow> setProgress h1 currentProjectWithProgress 100;
                 Some (remainingEarnedMoney, h') }
          else if remainingEarnedMoney > 0 then
            (let moneyAllocatedToProject = min remainingEarnedMoney (amount project)
             in do { h' \<leftarrow> setProgress h1 currentProjectWithProgress
                             (moneyAllocatedToProject / amount project * 100);
                     Some (remainingEarnedMoney - moneyAllocatedToProject, h') })
          else Some (remainingEarnedMoney, h1));
       v \<leftarrow> getProgress h2 currentProjectWithProgress;
       h3 \<leftarrow> setProgress h2 currentProjectWithProgress (min 100 (max 0 (toFixed2 v)));
       h4 \<leftarrow> push h3 projectsWithCalculatedProgress currentProjectWithProgress;
       Some (remaining', h4)
     }"

text \<open>
  The \<^verbatim>\<open>for ... of\<close> loop walks the element references that the input array
  holds when the loop starts.
\<close>

fun distributeLoopH :: "ref \<Rightarrow> real \<Rightarrow> heap \<Rightarrow> ref list \<Rightarrow> heap option" where
  "distributeLoopH result remainingEarnedMoney h [] = Some h"
| "distributeLoopH result remainingEarnedMoney h (projectRef # rest) =
     (case loopBodyH result remainingEarnedMoney h projectRef of
        None \<Rightarrow> None
      | Some (remaining', h') \<Rightarrow> distributeLoopH result remaining' h' rest)"

definition distributeFundsAndCalculateProgressH :: "heap \<Rightarrow> ref \<Rightarrow> real \<Rightarrow> (ref \<times> heap) option" where
  "distributeFundsAndCalculateProgressH h sortedProjects totalEarnedMoney =
     (case lookup h sortedProjects of
        Some (ArrayCell rs) \<Rightarrow>
          (let (result, h1) = alloc h (ArrayCell [])
           in case distributeLoopH result totalEarnedMoney h1 rs of
                None \<Rightarrow> None
              | Some h2 \<Rightarrow> Some (result, h2))
      | _ \<Rightarrow> None)"

text \<open>The cell that holds a result record.\<close>

definition cellOf :: "IProject \<Rightarrow> cell" where
  "cellOf q = ObjectCell (ProjectFromJson.truncate q) (Some (progress q))"

section \<open>Example data\<close>

text \<open>
  Three goals of 1000, 500 and 2000 in the tiers critical, high and low, already in
  priority order; a list of four goals out of order, with two in the same tier; a goal
  without a cost; a goal of 3; a goal whose tier is not one of the four; and a store
  that holds the unordered list.
\<close>

definition goal :: "string \<Rightarrow> real \<Rightarrow> string \<Rightarrow> ProjectFromJson" where
  "goal n c t =
     \<lparr>name = n, details = ''details'', amount = c, priority = t, start_date = ''2025-06-01''\<rparr>"

definition scenarioTargets :: "ProjectFromJson list" where
  "scenarioTargets =
     [goal ''rent'' 1000 ''critical'', goal ''laptop'' 500 ''high'', goal ''trip'' 2000 ''low'']"

definition unsortedTargets :: "ProjectFromJson list" where
  "unsortedTargets =
     [goal ''trip'' 2000 ''low'', goal ''B'' 500 ''high'', goal ''rent'' 1000 ''critical'',
      goal ''A'' 300 ''high'']"

definition exampleHeap :: heap where
  "exampleHeap =
     [ObjectCell (goal ''trip'' 2000 ''low'') None,
      ObjectCell (goal ''B'' 500 ''high'') None,
      ObjectCell (goal ''rent'' 1000 ''critical'') None,
      ObjectCell (goal ''A'' 300 ''high'') None,
      ArrayCell [0, 1, 2, 3]]"

section \<open>The loop as a function of the list\<close>

lemma distributeLoop_acc:
  "distributeLoop r acc ps = acc @ distributeLoop r [] ps"
proof (induction ps arbitrary: r acc)
  case Nil
  show ?case by simp
next
  case (Cons p ps)
  obtain r' c where lb: "loopBody r p = (r', c)" by (cases "loopBody r p")
  have "distributeLoop r acc (p # ps) = distributeLoop r' (acc @ [c]) ps"
    by (simp add: lb)
  also have "\<dots> = (acc @ [c]) @ distributeLoop r' [] ps"
    by (rule Cons.IH)
  also have "\<dots> = acc @ distributeLoop r' ([] @ [c]) ps"
    using Cons.IH [of r' "[] @ [c]"] by simp
  finally show ?case by (simp add: lb)
qed

lemma distribute_Nil [simp]: "distributeFundsAndCalculateProgress [] pool = []"
  by (simp add: distributeFundsAndCalculateProgress_def)

lemma distribute_Cons:
  "distributeFundsAndCalculateProgress (p # ps) pool =
     snd (loopBody pool p) # distributeFundsAndCalculateProgress ps (fst (loopBody pool p))"
  unfolding distributeFundsAndCalculateProgress_def
  using distributeLoop_acc [of "fst (loopBody pool p)" "[snd (loopBody pool p)]" ps]
  by (simp add: case_prod_beta)

lemma length_distribute [simp]:
  "length (distributeFundsAndCalculateProgress ps pool) = length ps"
  by (induction ps arbitrary: pool) (simp_all add: distribute_Cons)

lemma remainingAfter_Nil [simp]: "remainingAfter r [] = r"
  by (simp add: remainingAfter_def)

lemma remainingAfter_Cons [simp]:
  "remainingAfter r (p # ps) = remainingAfter (fst (loopBody r p)) ps"
  by (simp add: remainingAfter_def)

lemma remainingAfter_append:
  "remainingAfter r (xs @ ys) = remainingAfter (remainingAfter r xs) ys"
  by (simp add: remainingAfter_def)

lemma distribute_append:
  "distributeFundsAndCalculateProgress (xs @ ys) pool =
     distributeFundsAndCalculateProgress xs pool @
     distributeFundsAndCalculateProgress ys (remainingAfter pool xs)"
  by (induction xs arbitrary: pool) (simp_all add: distribute_Cons)

lemma distribute_nth:
  "i < length ps \<Longrightarrow>
   distributeFundsAndCalculateProgress ps pool ! i =
     snd (loopBody (remainingAfter pool (take i ps)) (ps ! i))"
proof (induction ps arbitrary: pool i)
  case Nil
  then show ?case by simp
next
  case (Cons p ps)
  show ?case
  proof (cases i)
    case 0
    then show ?thesis by (simp add: distribute_Cons)
  next
    case (Suc k)
    with Cons.prems have "k < length ps" by simp
    from Cons.IH [OF this] Suc show ?thesis by (simp add: distribute_Cons)
  qed
qed

section \<open>One iteration\<close>

lemma fst_loopBody: "fst (loopBody r p) = r - moneyAllocated r p"
  by (simp add: loopBody_def moneyAllocated_def Let_def)

lemma truncate_loopBody: "ProjectFromJson.truncate (snd (loopBody r p)) = p"
  by (simp add: loopBody_def withProgress_def ProjectFromJson.truncate_def Let_def)

lemma loopBody_free: "amount p \<le> 0 \<Longrightarrow> loopBody r p = (r, withProgress p 100)"
  by (simp add: loopBody_def withProgress_def toFixed2_def Let_def)

lemma loopBody_empty:
  "0 < amount p \<Longrightarrow> r \<le> 0 \<Longrightarrow> loopBody r p = (r, withProgress p 0)"
  by (simp add: loopBody_def withProgress_def toFixed2_def Let_def)

lemma toFixed2_small:
  "0 \<le> x \<Longrightarrow> x \<le> 100 \<Longrightarrow> toFixed2 x = of_int \<lfloor>x * 100 + 1 / 2\<rfloor> / 100"
  by (simp add: toFixed2_def)

lemma toFixed2_nonneg: "0 \<le> x \<Longrightarrow> x \<le> 100 \<Longrightarrow> 0 \<le> toFixed2 x"
  by (simp add: toFixed2_small)

lemma toFixed2_mono:
  assumes "0 \<le> x" "x \<le> y" "y \<le> 100"
  shows "toFixed2 x \<le> toFixed2 y"
proof -
  have "\<lfloor>x * 100 + 1 / 2\<rfloor> \<le> \<lfloor>y * 100 + 1 / 2\<rfloor>"
    using assms by (intro floor_mono) simp
  then have "(of_int \<lfloor>x * 100 + 1 / 2\<rfloor> :: real) \<le> of_int \<lfloor>y * 100 + 1 / 2\<rfloor>"
    by simp
  then show ?thesis
    using assms by (simp add: toFixed2_small divide_right_mono)
qed

lemma toFixed2_100: "toFixed2 100 = 100"
  by (simp add: toFixed2_def)

lemma toFixed2_le_100: "0 \<le> x \<Longrightarrow> x \<le> 100 \<Longrightarrow> toFixed2 x \<le> 100"
  using toFixed2_mono [of x 100] by (simp add: toFixed2_100)

lemma toFixed2_upper:
  assumes "0 \<le> x" "x \<le> 100"
  shows "toFixed2 x \<le> x + 1 / 200"
proof -
  have "of_int \<lfloor>x * 100 + 1 / 2\<rfloor> \<le> x * 100 + 1 / 2"
    by (rule of_int_floor_le)
  then show ?thesis using assms by (simp add: toFixed2_small field_simps)
qed

lemma rawProgress_range: "0 \<le> rawProgress r p \<and> rawProgress r p \<le> 100"
  by (auto simp: rawProgress_def min_def field_simps)

lemma loopBody_snd: "snd (loopBody r p) = withProgress p (toFixed2 (rawProgress r p))"
proof -
  have "min 100 (max 0 (toFixed2 (rawProgress r p))) = toFixed2 (rawProgress r p)"
    using rawProgress_range [of r p] toFixed2_nonneg [of "rawProgress r p"]
      toFixed2_le_100 [of "rawProgress r p"] by simp
  then show ?thesis
    by (auto simp: loopBody_def rawProgress_def withProgress_def Let_def)
qed

lemma progress_loopBody: "progress (snd (loopBody r p)) = toFixed2 (rawProgress r p)"
  by (simp add: loopBody_snd withProgress_def)

lemma amount_loopBody: "amount (snd (loopBody r p)) = amount p"
  by (simp add: loopBody_snd withProgress_def)

lemma distribute_exhausted:
  "r \<le> 0 \<Longrightarrow>
   distributeFundsAndCalculateProgress ps r =
     map (\<lambda>p. withProgress p (if 0 < amount p then 0 else 100)) ps"
proof (induction ps)
  case Nil
  show ?case by simp
next
  case (Cons p ps)
  show ?case
  proof (cases "0 < amount p")
    case True
    with Cons show ?thesis by (simp add: distribute_Cons loopBody_empty)
  next
    case False
    with Cons show ?thesis by (simp add: distribute_Cons loopBody_free)
  qed
qed

section \<open>The scenarios of the specification\<close>

lemma scenario_1200:
  "map progress (distributeFundsAndCalculateProgress scenarioTargets 1200) = [100, 40, 0]"
  by (simp add: scenarioTargets_def goal_def distribute_Cons loopBody_snd rawProgress_def
      toFixed2_def withProgress_def fst_loopBody moneyAllocated_def)

lemma scenario_3500:
  "map progress (distributeFundsAndCalculateProgress scenarioTargets 3500) = [100, 100, 100] \<and>
   remainingAfter 3500 scenarioTargets = 0"
  by (simp add: scenarioTargets_def goal_def distribute_Cons loopBody_snd rawProgress_def
      toFixed2_def withProgress_def fst_loopBody moneyAllocated_def)

section \<open>Shape of the result\<close>

text \<open>
  Claim C10. The allocator returns one record per input project, in the order of the
  input, and each record carries the five fields of its project unchanged: dropping
  the \<^verbatim>\<open>progress\<close> field from every result gives back the input list.
\<close>

theorem result_shape:
  "map ProjectFromJson.truncate (distributeFundsAndCalculateProgress ps pool) = ps"
  by (induction ps arbitrary: pool) (simp_all add: distribute_Cons truncate_loopBody)

section \<open>Projects without a cost, and an empty pool\<close>

text \<open>
  Claim C4. A project whose amount is zero or negative gets progress 100 whatever the
  pool is, and the running remainder is the same after it as before it: the projects
  after it are served from the remainder that the projects before it left.
\<close>

theorem zero_cost:
  assumes "amount p \<le> 0"
  shows "distributeFundsAndCalculateProgress (xs @ p # ys) pool =
           distributeFundsAndCalculateProgress xs pool @
           withProgress p 100 #
           distributeFundsAndCalculateProgress ys (remainingAfter pool xs) \<and>
         remainingAfter pool (xs @ [p]) = remainingAfter pool xs"
  using assms
  by (simp add: distribute_append distribute_Cons loopBody_free remainingAfter_append)

theorem zero_cost_witness:
  "amount (goal ''gift'' (- 20) ''high'') \<le> 0 \<and>
   map progress
     (distributeFundsAndCalculateProgress
        ([goal ''rent'' 1000 ''critical''] @ goal ''gift'' (- 20) ''high'' #
         [goal ''trip'' 2000 ''low'']) (- 5)) = [0, 100, 0] \<and>
   remainingAfter (- 5) ([goal ''rent'' 1000 ''critical''] @ [goal ''gift'' (- 20) ''high'']) =
     remainingAfter (- 5) [goal ''rent'' 1000 ''critical'']"
proof -
  have h: "amount (goal ''gift'' (- 20) ''high'') \<le> 0" by (simp add: goal_def)
  from zero_cost [OF h, of "[goal ''rent'' 1000 ''critical'']" "[goal ''trip'' 2000 ''low'']" "- 5"]
  show ?thesis
    by (simp add: goal_def distribute_Cons loopBody_snd rawProgress_def toFixed2_def
        withProgress_def fst_loopBody moneyAllocated_def)
qed

text \<open>
  Claim C5. With a negative pool the allocator returns what it returns with pool 0:
  progress 0 for every project with a positive amount and 100 for every other one.
\<close>

theorem negative_pool:
  assumes "pool < 0"
  shows "distributeFundsAndCalculateProgress ps pool =
           distributeFundsAndCalculateProgress ps 0 \<and>
         distributeFundsAndCalculateProgress ps pool =
           map (\<lambda>p. withProgress p (if 0 < amount p then 0 else 100)) ps"
  using assms by (simp add: distribute_exhausted)

theorem negative_pool_witness:
  "(- 50 :: real) < 0 \<and>
   distributeFundsAndCalculateProgress scenarioTargets (- 50) =
     distributeFundsAndCalculateProgress scenarioTargets 0 \<and>
   map progress (distributeFundsAndCalculateProgress scenarioTargets (- 50)) = [0, 0, 0]"
proof -
  have h: "(- 50 :: real) < 0" by simp
  from negative_pool [OF h, of scenarioTargets]
  have a: "distributeFundsAndCalculateProgress scenarioTargets (- 50) =
             distributeFundsAndCalculateProgress scenarioTargets 0"
    and b: "distributeFundsAndCalculateProgress scenarioTargets (- 50) =
             map (\<lambda>p. withProgress p (if 0 < amount p then 0 else 100)) scenarioTargets"
    by blast+
  have "map progress (distributeFundsAndCalculateProgress scenarioTargets (- 50)) = [0, 0, 0]"
    unfolding b by (simp add: scenarioTargets_def goal_def withProgress_def)
  with h a show ?thesis by blast
qed

section \<open>Monotonicity in the pool\<close>

lemma rawProgress_mono: "r1 \<le> r2 \<Longrightarrow> rawProgress r1 p \<le> rawProgress r2 p"
  by (auto simp: rawProgress_def min_def field_simps)

lemma remaining_mono: "r1 \<le> r2 \<Longrightarrow> fst (loopBody r1 p) \<le> fst (loopBody r2 p)"
  by (auto simp: fst_loopBody moneyAllocated_def min_def)

lemma progress_mono:
  "r1 \<le> r2 \<Longrightarrow> progress (snd (loopBody r1 p)) \<le> progress (snd (loopBody r2 p))"
  using rawProgress_range [of r1 p] rawProgress_range [of r2 p]
  by (simp add: progress_loopBody toFixed2_mono rawProgress_mono)

lemma remainingAfter_mono:
  "r1 \<le> r2 \<Longrightarrow> remainingAfter r1 ps \<le> remainingAfter r2 ps"
  by (induction ps arbitrary: r1 r2) (simp_all add: remaining_mono)

text \<open>
  Claim C6. With the list of projects fixed, a larger pool never gives any project a
  smaller progress value.
\<close>

theorem pool_monotone:
  assumes "p1 \<le> p2" and "i < length ps"
  shows "progress (distributeFundsAndCalculateProgress ps p1 ! i) \<le>
         progress (distributeFundsAndCalculateProgress ps p2 ! i)"
  using assms by (simp add: distribute_nth progress_mono remainingAfter_mono)

theorem pool_monotone_witness:
  "(1200 :: real) \<le> 3500 \<and> (1::nat) < length scenarioTargets \<and>
   progress (distributeFundsAndCalculateProgress scenarioTargets 1200 ! 1) \<le>
   progress (distributeFundsAndCalculateProgress scenarioTargets 3500 ! 1)"
proof -
  have h1: "(1200 :: real) \<le> 3500" by simp
  have h2: "(1::nat) < length scenarioTargets" by (simp add: scenarioTargets_def)
  from pool_monotone [OF h1 h2] h1 h2 show ?thesis by simp
qed

section \<open>Priority precedence\<close>

lemma remainingAfter_nonpos: "r \<le> 0 \<Longrightarrow> remainingAfter r ps = r"
  by (induction ps) (simp_all add: fst_loopBody moneyAllocated_def)

lemma underfunded_exhausts:
  assumes "0 < amount p" and "progress (snd (loopBody r p)) < 100"
  shows "fst (loopBody r p) \<le> 0"
proof (rule ccontr)
  assume "\<not> fst (loopBody r p) \<le> 0"
  then have "amount p < r"
    using assms(1) by (auto simp: fst_loopBody moneyAllocated_def min_def split: if_splits)
  then have "rawProgress r p = 100"
    using assms(1) by (simp add: rawProgress_def)
  with assms(2) show False by (simp add: progress_loopBody toFixed2_100)
qed

lemma later_gets_nothing:
  assumes "i < j" "j < length ps" "0 < amount (ps ! i)" "0 < amount (ps ! j)"
    and "progress (distributeFundsAndCalculateProgress ps pool ! i) < 100"
  shows "progress (distributeFundsAndCalculateProgress ps pool ! j) = 0"
proof -
  have i: "i < length ps" using assms by simp
  have "fst (loopBody (remainingAfter pool (take i ps)) (ps ! i)) \<le> 0"
    using assms(3,5) i by (intro underfunded_exhausts) (simp_all add: distribute_nth)
  then have "remainingAfter pool (take (Suc i) ps) \<le> 0"
    using i by (simp add: take_Suc_conv_app_nth remainingAfter_append)
  then have "remainingAfter (remainingAfter pool (take (Suc i) ps)) (drop (Suc i) (take j ps)) \<le> 0"
    by (simp add: remainingAfter_nonpos)
  moreover have "take (Suc i) (take j ps) = take (Suc i) ps"
    using assms(1) by (simp add: min_def)
  then have "take (Suc i) ps @ drop (Suc i) (take j ps) = take j ps"
    using append_take_drop_id [of "Suc i" "take j ps"] by simp
  ultimately have "remainingAfter pool (take j ps) \<le> 0"
    using remainingAfter_append [of pool "take (Suc i) ps" "drop (Suc i) (take j ps)"] by simp
  then show ?thesis
    using assms(2,4) by (simp add: distribute_nth loopBody_empty withProgress_def)
qed

text \<open>
  Claim C3. In a run on a list that is in priority order (the comparator of the sort
  never puts a later element before an earlier one), take two projects with a positive
  amount, the first in a strictly higher tier than the second. If the first is not
  fully funded, the second gets progress 0.
\<close>

theorem priority_precedence:
  assumes "sorted_wrt (\<lambda>a b. SortCompare comparePriority a b \<le> 0) ps"
    and "i < length ps" and "j < length ps"
    and "priorityOrder (priority (ps ! i)) = Some x"
    and "priorityOrder (priority (ps ! j)) = Some y"
    and "x < y"
    and "0 < amount (ps ! i)" and "0 < amount (ps ! j)"
    and "progress (distributeFundsAndCalculateProgress ps pool ! i) < 100"
  shows "progress (distributeFundsAndCalculateProgress ps pool ! j) = 0"
proof -
  have "i < j"
  proof (rule ccontr)
    assume "\<not> i < j"
    moreover have "i \<noteq> j" using assms(4,5,6) by auto
    ultimately have "j < i" by simp
    with assms(1,2) have "SortCompare comparePriority (ps ! j) (ps ! i) \<le> 0"
      by (simp add: sorted_wrt_iff_nth_less)
    with assms(4,5,6) show False by (simp add: SortCompare_def comparePriority_def)
  qed
  with assms show ?thesis by (intro later_gets_nothing [of i j]) simp_all
qed

theorem priority_precedence_witness:
  "sorted_wrt (\<lambda>a b. SortCompare comparePriority a b \<le> 0) scenarioTargets \<and>
   (1::nat) < length scenarioTargets \<and> (2::nat) < length scenarioTargets \<and>
   priorityOrder (priority (scenarioTargets ! 1)) = Some 2 \<and>
   priorityOrder (priority (scenarioTargets ! 2)) = Some 4 \<and>
   (2::int) < 4 \<and>
   0 < amount (scenarioTargets ! 1) \<and> 0 < amount (scenarioTargets ! 2) \<and>
   progress (distributeFundsAndCalculateProgress scenarioTargets 1200 ! 1) < 100 \<and>
   progress (distributeFundsAndCalculateProgress scenarioTargets 1200 ! 2) = 0"
proof -
  have h1: "sorted_wrt (\<lambda>a b. SortCompare comparePriority a b \<le> 0) scenarioTargets"
    by (simp add: scenarioTargets_def goal_def SortCompare_def comparePriority_def
        priorityOrder_def)
  have h2: "(1::nat) < length scenarioTargets" and h3: "(2::nat) < length scenarioTargets"
    by (simp_all add: scenarioTargets_def)
  have h4: "priorityOrder (priority (scenarioTargets ! 1)) = Some 2"
    and h5: "priorityOrder (priority (scenarioTargets ! 2)) = Some 4"
    by (simp_all add: scenarioTargets_def goal_def priorityOrder_def)
  have h6: "(2::int) < 4" by simp
  have h7: "0 < amount (scenarioTargets ! 1)" and h8: "0 < amount (scenarioTargets ! 2)"
    by (simp_all add: scenarioTargets_def goal_def)
  have "map progress (distributeFundsAndCalculateProgress scenarioTargets 1200) ! 1 = 40"
    by (simp add: scenario_1200)
  then have h9: "progress (distributeFundsAndCalculateProgress scenarioTargets 1200 ! 1) < 100"
    using h2 by simp
  from priority_precedence [OF h1 h2 h3 h4 h5 h6 h7 h8 h9] h1 h2 h3 h4 h5 h6 h7 h8 h9
  show ?thesis by blast
qed

section \<open>Rounding to the nearest double\<close>

lemma pow2_powr: "pow2 k = 2 powr (of_int k)"
  by (simp add: pow2_def powr_int)

lemma pow2_pos [simp]: "0 < pow2 k"
  by (simp add: pow2_powr)

lemma pow2_add: "pow2 (a + b) = pow2 a * pow2 b"
  by (simp add: pow2_powr powr_add)

lemma pow2_mono: "a \<le> b \<Longrightarrow> pow2 a \<le> pow2 b"
  by (simp add: pow2_powr)

lemma pow2_nat: "0 \<le> k \<Longrightarrow> pow2 k = of_int (2 ^ nat k)"
  by (simp add: pow2_def)

lemma round_int [simp]: "roundTiesToEven (of_int k) = k"
  by (simp add: roundTiesToEven_def)

lemma round_err: "\<bar>of_int (roundTiesToEven y) - y\<bar> \<le> 1 / 2"
  unfolding roundTiesToEven_def Let_def by (auto; linarith)

lemma round_le: "y \<le> of_int k \<Longrightarrow> roundTiesToEven y \<le> k"
  unfolding roundTiesToEven_def Let_def by (auto; linarith)

lemma round_ge: "of_int k \<le> y \<Longrightarrow> k \<le> roundTiesToEven y"
  unfolding roundTiesToEven_def Let_def by (auto; linarith)

lemma exponent_bounds:
  assumes "0 < x"
  shows "pow2 (exponent x) \<le> x" and "x < pow2 (exponent x + 1)"
  using assms floor_log_eq_powr_iff [of x 2 "exponent x"]
  by (simp_all add: exponent_def pow2_powr)

lemma exponent_eq:
  assumes "0 < x" "pow2 e \<le> x" "x < pow2 (e + 1)"
  shows "exponent x = e"
  using assms floor_log_eq_powr_iff [of x 2 e]
  by (simp add: exponent_def pow2_powr)

lemma quantum_pos [simp]: "0 < quantum x"
  by (simp add: quantum_def)

lemma roundTo_nonneg: "0 < q \<Longrightarrow> 0 \<le> x \<Longrightarrow> 0 \<le> roundToMultiple q x"
proof -
  assume q: "0 < q" and "0 \<le> x"
  then have "of_int 0 \<le> x / q" by simp
  then have "0 \<le> roundTiesToEven (x / q)" by (rule round_ge)
  with q show ?thesis by (simp add: roundToMultiple_def)
qed

lemma roundTo_err:
  assumes "0 < q"
  shows "\<bar>roundToMultiple q x - x\<bar> \<le> q / 2"
proof -
  let ?r = "of_int (roundTiesToEven (x / q)) :: real"
  have "\<bar>?r - x / q\<bar> * q \<le> 1 / 2 * q"
    using assms by (intro mult_right_mono round_err) simp
  moreover have "(?r - x / q) * q = ?r * q - x"
    using assms by (simp add: left_diff_distrib)
  then have "\<bar>?r - x / q\<bar> * q = \<bar>?r * q - x\<bar>"
    using assms by (metis abs_mult abs_of_pos)
  ultimately show ?thesis by (simp add: roundToMultiple_def)
qed

lemma roundTo_le:
  assumes "0 < q" "x \<le> of_int k * q"
  shows "roundToMultiple q x \<le> of_int k * q"
proof -
  have "x / q \<le> of_int k" using assms by (simp add: pos_divide_le_eq)
  then have "roundTiesToEven (x / q) \<le> k" by (rule round_le)
  then show ?thesis
    using assms(1) by (simp add: roundToMultiple_def)
qed

lemma roundTo_ge:
  assumes "0 < q" "of_int k * q \<le> x"
  shows "of_int k * q \<le> roundToMultiple q x"
proof -
  have "of_int k \<le> x / q" using assms by (simp add: pos_le_divide_eq)
  then have "k \<le> roundTiesToEven (x / q)" by (rule round_ge)
  then show ?thesis
    using assms(1) by (simp add: roundToMultiple_def)
qed

lemma roundTo_exact: "0 < q \<Longrightarrow> roundToMultiple q (of_int k * q) = of_int k * q"
  by (simp add: roundToMultiple_def)

lemma fl64_0 [simp]: "fl64 0 = 0"
  by (simp add: fl64_def)

lemma fl64_nonneg: "0 \<le> x \<Longrightarrow> 0 \<le> fl64 x"
  by (simp add: fl64_def roundTo_nonneg)

lemma fl64_err: "\<bar>fl64 x - x\<bar> \<le> quantum x / 2"
  using roundTo_err [of "quantum x" x] by (simp add: fl64_def less_imp_le)

lemma fl64_le: "x \<le> of_int k * quantum x \<Longrightarrow> fl64 x \<le> of_int k * quantum x"
  by (cases "x = 0") (simp_all add: fl64_def roundTo_le)

lemma fl64_ge: "of_int k * quantum x \<le> x \<Longrightarrow> of_int k * quantum x \<le> fl64 x"
  by (cases "x = 0") (simp_all add: fl64_def roundTo_ge)

lemma fl64_exact: "x = of_int k * quantum x \<Longrightarrow> fl64 x = x"
  using roundTo_exact [of "quantum x" k] by (simp add: fl64_def)

lemma quantum_eq:
  assumes "0 < x" "pow2 e \<le> x" "x < pow2 (e + 1)"
  shows "quantum x = pow2 (max (e - 52) (- 1074))"
proof -
  have "exponent \<bar>x\<bar> = e" using assms by (intro exponent_eq) simp_all
  then show ?thesis using assms(1) by (simp add: quantum_def exponent_def)
qed

lemma quantum_normal:
  assumes "pow2 (- 1022) \<le> x"
  shows "quantum x \<le> x / 2 ^ 52"
proof -
  have x: "0 < x" using assms pow2_pos [of "- 1022"] by linarith
  have "pow2 (- 1022) < pow2 (exponent x + 1)"
    using assms exponent_bounds(2) [OF x] by linarith
  then have "- 1022 < exponent x + 1"
    by (simp add: pow2_powr)
  then have "max (exponent x - 52) (- 1074) = exponent x - 52"
    by linarith
  then have "quantum x = pow2 (exponent x - 52)"
    by (simp only: quantum_def)
  also have "\<dots> = pow2 (exponent x) * pow2 (- 52)"
    using pow2_add [of "exponent x" "- 52"] by simp
  also have "\<dots> \<le> x * pow2 (- 52)"
    using exponent_bounds(1) [OF x] by (intro mult_right_mono) (simp_all add: less_imp_le)
  finally show ?thesis by (simp add: pow2_def)
qed

lemma quantum_subnormal:
  assumes "0 < x" "x < pow2 (- 1022)"
  shows "quantum x = pow2 (- 1074)"
proof -
  have "pow2 (exponent x) < pow2 (- 1022)"
    using assms exponent_bounds(1) [OF assms(1)] by linarith
  then have "exponent x < - 1022" by (simp add: pow2_powr)
  then have "max (exponent x - 52) (- 1074) = - 1074"
    by linarith
  then show ?thesis by (simp only: quantum_def)
qed

lemma fl64_relative:
  assumes "pow2 (- 1022) \<le> x"
  shows "fl64 x \<le> (1 + 1 / 2 ^ 53) * x"
proof -
  have "fl64 x - x \<le> quantum x / 2" using fl64_err [of x] by linarith
  also have "\<dots> \<le> x / 2 ^ 52 / 2" using quantum_normal [OF assms] by simp
  finally show ?thesis by (simp add: field_simps)
qed

lemma fl64_1 [simp]: "fl64 1 = 1"
proof -
  have "quantum 1 = pow2 (- 52)"
    using quantum_eq [of 1 0] by (simp add: pow2_def)
  then show ?thesis using fl64_exact [of 1 "2 ^ 52"] by (simp add: pow2_def)
qed

lemma fl64_100 [simp]: "fl64 100 = 100"
proof -
  have "quantum 100 = pow2 (- 46)"
    using quantum_eq [of 100 6] by (simp add: pow2_def)
  then show ?thesis using fl64_exact [of 100 "100 * 2 ^ 46"] by (simp add: pow2_def)
qed


lemma exponent_less:
  assumes "0 < x" "x < pow2 (e + 1)"
  shows "exponent x \<le> e"
proof -
  have "pow2 (exponent x) < pow2 (e + 1)"
    using exponent_bounds(1) [OF assms(1)] assms(2) by linarith
  then show ?thesis by (simp add: pow2_powr)
qed

lemma quantum_le:
  assumes "0 < x" "x < pow2 (e + 1)"
  shows "quantum x \<le> pow2 (max (e - 52) (- 1074))"
  unfolding quantum_def using exponent_less [OF assms] by (intro pow2_mono) linarith

lemma fl64_eval:
  assumes "pow2 e \<le> x" "x < pow2 (e + 1)" "- 1022 \<le> e"
  shows "fl64 x = of_int (roundTiesToEven (x / pow2 (e - 52))) * pow2 (e - 52)"
proof -
  have x: "0 < x" using assms(1) pow2_pos [of e] by linarith
  have "max (e - 52) (- 1074) = e - 52" using assms(3) by linarith
  then have "quantum x = pow2 (e - 52)"
    using quantum_eq [OF x assms(1,2)] by simp
  then show ?thesis using x by (simp add: fl64_def roundToMultiple_def)
qed

lemma fl64_le_int:
  assumes "0 \<le> x" "x \<le> of_int c" "x < 2 ^ 53"
  shows "fl64 x \<le> of_int c"
proof (cases "x = 0")
  case True
  with assms show ?thesis by simp
next
  case False
  then have x: "0 < x" using assms(1) by simp
  define q where "q = max (exponent x - 52) (- 1074)"
  have "x < pow2 (52 + 1)" using assms(3) by (simp add: pow2_def)
  then have "exponent x \<le> 52" using x by (intro exponent_less)
  then have q: "q \<le> 0" by (simp add: q_def)
  have quant: "quantum x = pow2 q" by (simp add: quantum_def q_def)
  have "pow2 (- q) * pow2 q = 1"
    using pow2_add [of "- q" q] by (simp add: pow2_def)
  moreover have "pow2 (- q) = of_int (2 ^ nat (- q))"
    using q by (intro pow2_nat) simp
  ultimately have c: "of_int (c * 2 ^ nat (- q)) * quantum x = of_int c"
    by (simp add: quant)
  have "x \<le> of_int (c * 2 ^ nat (- q)) * quantum x"
    using assms(2) by (simp only: c)
  then have "fl64 x \<le> of_int (c * 2 ^ nat (- q)) * quantum x"
    by (rule fl64_le)
  then show ?thesis by (simp only: c)
qed

lemma fl64_subnormal_le:
  assumes "0 \<le> x" "x < pow2 (- 1022)"
  shows "fl64 x \<le> pow2 (- 1022)"
proof (cases "x = 0")
  case True
  then show ?thesis by (simp add: less_imp_le)
next
  case False
  then have x: "0 < x" using assms(1) by simp
  have quant: "quantum x = pow2 (- 1074)" using x assms(2) by (rule quantum_subnormal)
  have "pow2 (- 1022) = pow2 52 * pow2 (- 1074)"
    using pow2_add [of 52 "- 1074"] by simp
  also have "pow2 52 = of_int (2 ^ 52)" by (simp add: pow2_def)
  finally have c: "of_int (2 ^ 52) * quantum x = pow2 (- 1022)" by (simp only: quant)
  have "x \<le> of_int (2 ^ 52) * quantum x"
    using assms(2) by (simp only: c)
  then have "fl64 x \<le> of_int (2 ^ 52) * quantum x"
    by (rule fl64_le)
  then show ?thesis by (simp only: c)
qed

lemma onGrid_diff: "onGrid x \<Longrightarrow> onGrid y \<Longrightarrow> onGrid (x - y)"
proof -
  assume "onGrid x" "onGrid y"
  then obtain k l :: int where "x = of_int k * pow2 (- 1074)" "y = of_int l * pow2 (- 1074)"
    by (auto simp: onGrid_def)
  then have "x - y = of_int (k - l) * pow2 (- 1074)"
    by (simp add: left_diff_distrib)
  then show ?thesis unfolding onGrid_def by blast
qed

lemma onGrid_0 [simp]: "onGrid 0"
  unfolding onGrid_def by (rule exI [of _ 0]) simp

lemma onGrid_fl64: "onGrid (fl64 x)"
proof (cases "x = 0")
  case True
  then show ?thesis by simp
next
  case False
  define q where "q = max (exponent x - 52) (- 1074)"
  have q: "0 \<le> q + 1074" by (simp add: q_def)
  have "pow2 q = pow2 (q + 1074) * pow2 (- 1074)"
    using pow2_add [of "q + 1074" "- 1074"] by simp
  also have "pow2 (q + 1074) = of_int (2 ^ nat (q + 1074))"
    using q by (rule pow2_nat)
  finally have "fl64 x = of_int (roundTiesToEven (x / quantum x) * 2 ^ nat (q + 1074)) * pow2 (- 1074)"
    using False by (simp add: fl64_def roundToMultiple_def quantum_def q_def)
  then show ?thesis unfolding onGrid_def by blast
qed

lemma fl64_grid_subnormal:
  assumes "onGrid x" "0 \<le> x" "x < pow2 (- 1022)"
  shows "fl64 x = x"
proof (cases "x = 0")
  case True
  then show ?thesis by simp
next
  case False
  then have x: "0 < x" using assms(2) by simp
  have quant: "quantum x = pow2 (- 1074)" using x assms(3) by (rule quantum_subnormal)
  from assms(1) obtain k :: int where "x = of_int k * pow2 (- 1074)"
    by (auto simp: onGrid_def)
  then have "x = of_int k * quantum x" unfolding quant .
  then show ?thesis by (rule fl64_exact)
qed

lemma fl64_difference:
  assumes "onGrid x" "onGrid y" "y \<le> x"
  shows "fl64 (x - y) \<le> (1 + 1 / 2 ^ 53) * (x - y)"
proof (cases "pow2 (- 1022) \<le> x - y")
  case True
  then show ?thesis by (rule fl64_relative)
next
  case False
  then have "fl64 (x - y) = x - y"
    using assms by (intro fl64_grid_subnormal onGrid_diff) simp_all
  moreover have "0 \<le> (x - y) * (1 / 2 ^ 53)" using assms(3) by simp
  ultimately show ?thesis by (simp add: algebra_simps)
qed

section \<open>The loop on doubles\<close>

lemma distributeLoop64_acc:
  "distributeLoop64 r acc ps = acc @ distributeLoop64 r [] ps"
proof (induction ps arbitrary: r acc)
  case Nil
  show ?case by simp
next
  case (Cons p ps)
  obtain r' c where lb: "loopBody64 r p = (r', c)" by (cases "loopBody64 r p")
  have "distributeLoop64 r acc (p # ps) = distributeLoop64 r' (acc @ [c]) ps"
    by (simp add: lb)
  also have "\<dots> = (acc @ [c]) @ distributeLoop64 r' [] ps"
    by (rule Cons.IH)
  also have "\<dots> = acc @ distributeLoop64 r' ([] @ [c]) ps"
    using Cons.IH [of r' "[] @ [c]"] by simp
  finally show ?case by (simp add: lb)
qed

lemma distribute64_Nil [simp]: "distributeFundsAndCalculateProgress64 [] pool = []"
  by (simp add: distributeFundsAndCalculateProgress64_def)

lemma distribute64_Cons:
  "distributeFundsAndCalculateProgress64 (p # ps) pool =
     snd (loopBody64 pool p) # distributeFundsAndCalculateProgress64 ps (fst (loopBody64 pool p))"
  unfolding distributeFundsAndCalculateProgress64_def
  using distributeLoop64_acc [of "fst (loopBody64 pool p)" "[snd (loopBody64 pool p)]" ps]
  by (simp add: case_prod_beta)

lemma length_distribute64 [simp]:
  "length (distributeFundsAndCalculateProgress64 ps pool) = length ps"
  by (induction ps arbitrary: pool) (simp_all add: distribute64_Cons)

lemma toFixed2_0 [simp]: "toFixed2 0 = 0"
  by (simp add: toFixed2_def)

lemma loopBody64_snd:
  "snd (loopBody64 r p) =
     withProgress p (min 100 (max 0 (fl64 (toFixed2 (rawProgress64 r p)))))"
  by (simp add: loopBody64_def rawProgress64_def withProgress_def Let_def)

lemma loopBody64_fst:
  "fst (loopBody64 r p) =
     (if amount p \<le> 0 then r else if 0 < r then fl64 (r - min r (amount p)) else r)"
  by (simp add: loopBody64_def Let_def)

lemma rawProgress64_range: "0 \<le> rawProgress64 r p \<and> rawProgress64 r p \<le> 100"
proof (cases "0 < amount p \<and> 0 < r")
  case False
  then show ?thesis by (auto simp: rawProgress64_def)
next
  case True
  let ?m = "min r (amount p)"
  have m: "0 \<le> ?m / amount p" "?m / amount p \<le> 1" using True by auto
  have q0: "0 \<le> fl64 (?m / amount p)" using m(1) by (rule fl64_nonneg)
  have "fl64 (?m / amount p) \<le> of_int 1"
    using m by (intro fl64_le_int) simp_all
  then have q1: "fl64 (?m / amount p) \<le> 1" by simp
  have "0 \<le> fl64 (fl64 (?m / amount p) * 100)"
    using q0 by (intro fl64_nonneg) simp
  moreover have "fl64 (fl64 (?m / amount p) * 100) \<le> of_int 100"
    using q0 q1 by (intro fl64_le_int) simp_all
  ultimately show ?thesis using True by (simp add: rawProgress64_def)
qed

lemma hundredths:
  assumes "0 \<le> x" "x \<le> 100"
  shows "toFixed2 x = of_int \<lfloor>x * 100 + 1 / 2\<rfloor> / 100"
    and "0 \<le> \<lfloor>x * 100 + 1 / 2\<rfloor>" and "\<lfloor>x * 100 + 1 / 2\<rfloor> \<le> 10000"
proof -
  show "toFixed2 x = of_int \<lfloor>x * 100 + 1 / 2\<rfloor> / 100"
    using assms by (rule toFixed2_small)
  show "0 \<le> \<lfloor>x * 100 + 1 / 2\<rfloor>" using assms(1) by simp
  have "x * 100 + 1 / 2 < of_int (10000 + 1)" using assms(2) by simp
  then have "\<lfloor>x * 100 + 1 / 2\<rfloor> < 10000 + 1" by (simp only: floor_less_iff)
  then show "\<lfloor>x * 100 + 1 / 2\<rfloor> \<le> 10000" by simp
qed

lemma parse_hundredths:
  assumes "0 \<le> n" "n \<le> 10000"
  shows "0 \<le> fl64 (of_int n / 100)" and "fl64 (of_int n / 100) \<le> 100"
    and "\<bar>fl64 (of_int n / 100) - of_int n / 100\<bar> \<le> 1 / 2 ^ 47"
proof -
  let ?t = "of_int n / 100 :: real"
  have t: "0 \<le> ?t" "?t \<le> 100" using assms by simp_all
  show "0 \<le> fl64 ?t" using t(1) by (rule fl64_nonneg)
  have "fl64 ?t \<le> of_int 100" using t by (intro fl64_le_int) simp_all
  then show "fl64 ?t \<le> 100" by simp
  show "\<bar>fl64 ?t - ?t\<bar> \<le> 1 / 2 ^ 47"
  proof (cases "n = 0")
    case True
    then show ?thesis by simp
  next
    case False
    then have pos: "0 < ?t" using assms(1) by simp
    have "?t < pow2 (6 + 1)" using t(2) by (simp add: pow2_def)
    with pos have "quantum ?t \<le> pow2 (max (6 - 52) (- 1074))" by (rule quantum_le)
    then have "quantum ?t \<le> 1 / 2 ^ 46" by (simp add: pow2_def)
    with fl64_err [of ?t] show ?thesis by simp
  qed
qed

lemma progress64:
  obtains n :: int where "0 \<le> n" "n \<le> 10000"
    "progress (snd (loopBody64 r p)) = fl64 (of_int n / 100)"
    "toFixed2 (rawProgress64 r p) = of_int n / 100"
proof -
  let ?n = "\<lfloor>rawProgress64 r p * 100 + 1 / 2\<rfloor>"
  have rng: "0 \<le> rawProgress64 r p" "rawProgress64 r p \<le> 100"
    using rawProgress64_range by auto
  have n: "0 \<le> ?n" "?n \<le> 10000" and t: "toFixed2 (rawProgress64 r p) = of_int ?n / 100"
    using hundredths [OF rng] by auto
  have "min 100 (max 0 (fl64 (of_int ?n / 100))) = fl64 (of_int ?n / 100)"
    using parse_hundredths(1,2) [OF n] by simp
  then have P: "progress (snd (loopBody64 r p)) = fl64 (of_int ?n / 100)"
    by (simp add: loopBody64_snd withProgress_def t)
  show ?thesis by (rule that [OF n P t])
qed

lemma distribute64_nth:
  "i < length ps \<Longrightarrow>
   distributeFundsAndCalculateProgress64 ps pool ! i =
     snd (loopBody64 (remainingAfter64 pool (take i ps)) (ps ! i))"
proof (induction ps arbitrary: pool i)
  case Nil
  then show ?case by simp
next
  case (Cons p ps)
  show ?case
  proof (cases i)
    case 0
    then show ?thesis by (simp add: distribute64_Cons remainingAfter64_def)
  next
    case (Suc k)
    with Cons.prems have "k < length ps" by simp
    from Cons.IH [OF this] Suc show ?thesis
      by (simp add: distribute64_Cons remainingAfter64_def)
  qed
qed

lemma loopBody64_free: "amount p \<le> 0 \<Longrightarrow> loopBody64 r p = (r, withProgress p 100)"
  by (simp add: loopBody64_def withProgress_def toFixed2_def Let_def)

lemma loopBody64_empty:
  "0 < amount p \<Longrightarrow> r \<le> 0 \<Longrightarrow> loopBody64 r p = (r, withProgress p 0)"
  by (simp add: loopBody64_def withProgress_def Let_def)

lemma loopBody64_full:
  assumes "0 < amount p" "amount p \<le> r"
  shows "loopBody64 r p = (fl64 (r - amount p), withProgress p 100)"
proof -
  have "rawProgress64 r p = 100"
    using assms by (simp add: rawProgress64_def min_def)
  moreover have "toFixed2 100 = 100" by (simp add: toFixed2_def)
  ultimately have "snd (loopBody64 r p) = withProgress p 100"
    by (simp add: loopBody64_snd)
  moreover have "fst (loopBody64 r p) = fl64 (r - amount p)"
    using assms by (simp add: loopBody64_fst min_def)
  ultimately show ?thesis by (simp add: prod_eq_iff)
qed

lemma loopBody64_partial_fst:
  assumes "0 < r" "r < amount p"
  shows "fst (loopBody64 r p) = 0"
  using assms by (simp add: loopBody64_fst min_def)

lemma tiny: "pow2 (- 1022) \<le> 1 / 2 ^ 20"
  using pow2_mono [of "- 1022" "- 20"] by (simp add: pow2_def)

lemma partial_share:
  assumes "0 < r" "r < amount p"
  shows "progress (snd (loopBody64 r p)) / 100 * amount p \<le>
           (1 + 1 / 2 ^ 53) ^ 3 * r + (1 + 1 / 2 ^ 53) * (amount p / 20000)"
proof -
  define U :: real where "U = 1 + 1 / 2 ^ 53"
  define a where "a = amount p"
  define q where "q = fl64 (r / a)"
  define raw where "raw = fl64 (q * 100)"
  have U: "1 \<le> U" "U \<le> 2" by (simp_all add: U_def)
  have a: "0 < a" "r < a" using assms by (simp_all add: a_def)
  have raw_eq: "rawProgress64 r p = raw"
    using assms by (simp add: rawProgress64_def raw_def q_def a_def min_def)
  have rng: "0 \<le> raw" "raw \<le> 100"
    using rawProgress64_range [of r p] by (simp_all add: raw_eq)
  obtain n :: int where n: "0 \<le> n" "n \<le> 10000"
    and P: "progress (snd (loopBody64 r p)) = fl64 (of_int n / 100)"
    and t: "toFixed2 raw = of_int n / 100"
    using progress64 [of r p] by (metis raw_eq)
  have q0: "0 \<le> q" unfolding q_def using assms a by (intro fl64_nonneg) simp
  have rhs: "0 \<le> U ^ 3 * r + U * (a / 20000)"
    using U a assms by simp
  show ?thesis
  proof (cases "n = 0")
    case True
    with P rhs show ?thesis by (simp add: U_def a_def)
  next
    case False
    with n have n1: "1 \<le> n" by simp
    have tpos: "pow2 (- 1022) \<le> of_int n / 100"
    proof -
      have "(1::real) / 100 \<le> of_int n / 100" using n1 by simp
      moreover have "(1::real) / 2 ^ 20 \<le> 1 / 100" by simp
      ultimately show ?thesis using tiny by linarith
    qed
    have P_le: "fl64 (of_int n / 100) \<le> U * (of_int n / 100)"
      unfolding U_def using tpos by (rule fl64_relative)
    have t_le: "of_int n / 100 \<le> raw + 1 / 200"
      using toFixed2_upper [OF rng] t by simp
    have raw_ge: "1 / 200 \<le> raw"
    proof -
      have "of_int n = \<lfloor>raw * 100 + 1 / 2\<rfloor>"
        using t hundredths(1) [OF rng] by simp
      then have "(1::real) \<le> raw * 100 + 1 / 2"
        using n1 by (metis (no_types) of_int_1 of_int_floor_le of_int_le_iff order_trans)
      then show ?thesis by simp
    qed
    have q100: "pow2 (- 1022) \<le> q * 100"
    proof (rule ccontr)
      assume "\<not> pow2 (- 1022) \<le> q * 100"
      then have "fl64 (q * 100) \<le> pow2 (- 1022)"
        using q0 by (intro fl64_subnormal_le) simp_all
      then have "raw \<le> 1 / 2 ^ 20" using tiny by (simp add: raw_def)
      with raw_ge show False by simp
    qed
    have raw_le: "raw \<le> U * (q * 100)"
      unfolding raw_def U_def using q100 by (rule fl64_relative)
    have ra: "pow2 (- 1022) \<le> r / a"
    proof (rule ccontr)
      assume "\<not> pow2 (- 1022) \<le> r / a"
      then have "q \<le> pow2 (- 1022)"
        unfolding q_def using assms a by (intro fl64_subnormal_le) simp_all
      then have "q \<le> 1 / 2 ^ 20" using tiny by linarith
      then have "U * (q * 100) \<le> 2 * (1 / 2 ^ 20 * 100)"
        using U q0 by (intro mult_mono) simp_all
      with raw_le raw_ge show False by simp
    qed
    have q_le: "q \<le> U * (r / a)"
      unfolding q_def U_def using ra by (rule fl64_relative)
    have "q * 100 \<le> U * (r / a) * 100"
      using q_le by (intro mult_right_mono) simp_all
    then have "U * (q * 100) \<le> U * (U * (r / a) * 100)"
      using U by (intro mult_left_mono) simp_all
    with raw_le have "raw \<le> U * (U * (r / a) * 100)" by linarith
    with t_le have "of_int n / 100 \<le> U * (U * (r / a) * 100) + 1 / 200" by linarith
    then have "U * (of_int n / 100) \<le> U * (U * (U * (r / a) * 100) + 1 / 200)"
      using U by (intro mult_left_mono) simp_all
    with P_le have "fl64 (of_int n / 100) \<le> U * (U * (U * (r / a) * 100) + 1 / 200)"
      by linarith
    then have "fl64 (of_int n / 100) / 100 * a \<le>
               U * (U * (U * (r / a) * 100) + 1 / 200) / 100 * a"
      using a by (intro mult_right_mono divide_right_mono) simp_all
    also have "\<dots> = U ^ 3 * r + U * (a / 20000)"
      using a by (simp add: field_simps power3_eq_cube)
    finally show ?thesis by (simp add: P U_def a_def)
  qed
qed

section \<open>Rounding and range\<close>

lemma fl64_third: "fl64 (1 / 3) = 6004799503160661 / 2 ^ 54"
  using fl64_eval [of "- 2" "1 / 3"] by (simp add: pow2_def roundTiesToEven_def)

lemma fl64_third_100: "fl64 (6004799503160661 / 2 ^ 54 * 100) = 4691249611844266 / 2 ^ 47"
  using fl64_eval [of 5 "6004799503160661 / 2 ^ 54 * 100"]
  by (simp add: pow2_def roundTiesToEven_def)

text \<open>
  Claim C7. Every progress value that the allocator returns lies between 0 and 100, is
  what \<^verbatim>\<open>parseFloat\<close> reads from the two-decimal rounding of the percentage that
  the loop body has computed (the clamp that follows changes nothing), and so is a
  number of two decimals as a \<^verbatim>\<open>Number\<close> holds it: the double nearest to
  \<open>n / 100\<close> for a whole number \<open>n\<close> of hundredths between 0 and 10000, which differs
  from \<open>n / 100\<close> by at most \<open>2\<^sup>-\<^sup>4\<^sup>7\<close>. A single project of amount 3 with pool 1
  gets the double that the literal \<^verbatim>\<open>33.33\<close> denotes.
\<close>

theorem rounding_and_range:
  "(\<forall>i < length ps.
      0 \<le> progress (distributeFundsAndCalculateProgress64 ps pool ! i) \<and>
      progress (distributeFundsAndCalculateProgress64 ps pool ! i) \<le> 100 \<and>
      progress (distributeFundsAndCalculateProgress64 ps pool ! i) =
        fl64 (toFixed2 (rawProgress64 (remainingAfter64 pool (take i ps)) (ps ! i))) \<and>
      (\<exists>n::int. 0 \<le> n \<and> n \<le> 10000 \<and>
         progress (distributeFundsAndCalculateProgress64 ps pool ! i) = fl64 (of_int n / 100) \<and>
         \<bar>progress (distributeFundsAndCalculateProgress64 ps pool ! i) - of_int n / 100\<bar>
           \<le> 1 / 2 ^ 47)) \<and>
   (amount p = 3 \<longrightarrow>
      map progress (distributeFundsAndCalculateProgress64 [p] 1) = [fl64 (3333 / 100)])"
proof (intro conjI allI impI)
  fix i assume i: "i < length ps"
  let ?P = "progress (distributeFundsAndCalculateProgress64 ps pool ! i)"
  let ?r = "remainingAfter64 pool (take i ps)"
  have r: "distributeFundsAndCalculateProgress64 ps pool ! i = snd (loopBody64 ?r (ps ! i))"
    using i by (rule distribute64_nth)
  obtain n :: int where n: "0 \<le> n" "n \<le> 10000" and P: "?P = fl64 (of_int n / 100)"
    and t: "toFixed2 (rawProgress64 ?r (ps ! i)) = of_int n / 100"
    using progress64 [of ?r "ps ! i"] r by metis
  show "?P = fl64 (toFixed2 (rawProgress64 ?r (ps ! i)))"
    by (simp only: P t)
  show "0 \<le> ?P" using parse_hundredths(1) [OF n] P by simp
  show "?P \<le> 100" using parse_hundredths(2) [OF n] P by simp
  show "\<exists>n::int. 0 \<le> n \<and> n \<le> 10000 \<and> ?P = fl64 (of_int n / 100) \<and>
          \<bar>?P - of_int n / 100\<bar> \<le> 1 / 2 ^ 47"
    using parse_hundredths(3) [OF n] n P by auto
next
  assume a: "amount p = 3"
  have "rawProgress64 1 p = fl64 (fl64 (1 / 3) * 100)"
    using a by (simp add: rawProgress64_def)
  also have "\<dots> = fl64 (6004799503160661 / 2 ^ 54 * 100)"
    by (simp only: fl64_third)
  also have "\<dots> = 4691249611844266 / 2 ^ 47"
    by (rule fl64_third_100)
  finally have raw: "rawProgress64 1 p = 4691249611844266 / 2 ^ 47" .
  have "toFixed2 (4691249611844266 / 2 ^ 47) = 3333 / 100"
    by (simp add: toFixed2_def)
  then have t: "toFixed2 (rawProgress64 1 p) = 3333 / 100"
    by (simp only: raw)
  have c: "min 100 (max 0 (fl64 (3333 / 100))) = fl64 (3333 / 100)"
    using parse_hundredths(1,2) [of 3333] by simp
  have "progress (snd (loopBody64 1 p)) =
          min 100 (max 0 (fl64 (toFixed2 (rawProgress64 1 p))))"
    by (simp add: loopBody64_snd withProgress_def)
  also have "\<dots> = fl64 (3333 / 100)" by (simp only: t c)
  finally show "map progress (distributeFundsAndCalculateProgress64 [p] 1) = [fl64 (3333 / 100)]"
    by (simp add: distribute64_Cons)
qed

theorem rounding_and_range_witness:
  "(1::nat) < length scenarioTargets \<and>
   amount (goal ''bike'' 3 ''critical'') = 3 \<and>
   0 \<le> progress (distributeFundsAndCalculateProgress64 scenarioTargets 1200 ! 1) \<and>
   progress (distributeFundsAndCalculateProgress64 scenarioTargets 1200 ! 1) \<le> 100 \<and>
   map progress (distributeFundsAndCalculateProgress64 [goal ''bike'' 3 ''critical''] 1) =
     [fl64 (3333 / 100)]"
proof -
  have len: "(1::nat) < length scenarioTargets" by (simp add: scenarioTargets_def)
  have amt: "amount (goal ''bike'' 3 ''critical'') = 3" by (simp add: goal_def)
  from rounding_and_range [of scenarioTargets 1200 "goal ''bike'' 3 ''critical''"] len amt
  show ?thesis by blast
qed

text \<open>
  Where exact arithmetic and doubles part: for amount 160 and pool 23 the quotient
  times 100 is 14.375 exactly but 14.374999999999998 in doubles, so the program returns
  14.37 where exact arithmetic would give 14.38. On the first scenario of the
  specification the doubles give 100, 40 and 0.
\<close>

lemma fl64_23_160: "fl64 (23 / 160) = 5179139571476070 / 2 ^ 55"
  using fl64_eval [of "- 3" "23 / 160"] by (simp add: pow2_def roundTiesToEven_def)

lemma fl64_23_160_100: "fl64 (5179139571476070 / 2 ^ 55 * 100) = 8092405580431359 / 2 ^ 49"
  using fl64_eval [of 3 "5179139571476070 / 2 ^ 55 * 100"]
  by (simp add: pow2_def roundTiesToEven_def)

lemma doubles_round_down_at_160_23:
  assumes "amount p = 160"
  shows "map progress (distributeFundsAndCalculateProgress64 [p] 23) = [fl64 (1437 / 100)]"
    and "map progress (distributeFundsAndCalculateProgress [p] 23) = [1438 / 100]"
proof -
  have "rawProgress64 23 p = fl64 (fl64 (23 / 160) * 100)"
    using assms by (simp add: rawProgress64_def)
  also have "\<dots> = fl64 (5179139571476070 / 2 ^ 55 * 100)"
    by (simp only: fl64_23_160)
  also have "\<dots> = 8092405580431359 / 2 ^ 49"
    by (rule fl64_23_160_100)
  finally have raw: "rawProgress64 23 p = 8092405580431359 / 2 ^ 49" .
  have "toFixed2 (8092405580431359 / 2 ^ 49) = 1437 / 100"
    by (simp add: toFixed2_def)
  then have t: "toFixed2 (rawProgress64 23 p) = 1437 / 100"
    by (simp only: raw)
  have c: "min 100 (max 0 (fl64 (1437 / 100))) = fl64 (1437 / 100)"
    using parse_hundredths(1,2) [of 1437] by simp
  have "progress (snd (loopBody64 23 p)) =
          min 100 (max 0 (fl64 (toFixed2 (rawProgress64 23 p))))"
    by (simp add: loopBody64_snd withProgress_def)
  also have "\<dots> = fl64 (1437 / 100)" by (simp only: t c)
  finally show "map progress (distributeFundsAndCalculateProgress64 [p] 23) = [fl64 (1437 / 100)]"
    by (simp add: distribute64_Cons)
  show "map progress (distributeFundsAndCalculateProgress [p] 23) = [1438 / 100]"
    using assms by (simp add: distribute_Cons progress_loopBody rawProgress_def toFixed2_def)
qed

lemma fl64_200 [simp]: "fl64 200 = 200"
  using fl64_eval [of 7 200] by (simp add: pow2_def roundTiesToEven_def)

lemma fl64_40 [simp]: "fl64 40 = 40"
  using fl64_eval [of 5 40] by (simp add: pow2_def roundTiesToEven_def)

lemma fl64_two_fifths: "fl64 (2 / 5) = 7205759403792794 / 2 ^ 54"
  using fl64_eval [of "- 2" "2 / 5"] by (simp add: pow2_def roundTiesToEven_def)

lemma fl64_two_fifths_100: "fl64 (7205759403792794 / 2 ^ 54 * 100) = 40"
  using fl64_eval [of 5 "7205759403792794 / 2 ^ 54 * 100"]
  by (simp add: pow2_def roundTiesToEven_def)

lemma scenario64_1200:
  "map progress (distributeFundsAndCalculateProgress64 scenarioTargets 1200) = [100, 40, 0]"
proof -
  let ?rent = "goal ''rent'' 1000 ''critical''"
  let ?laptop = "goal ''laptop'' 500 ''high''"
  let ?trip = "goal ''trip'' 2000 ''low''"
  have s1: "loopBody64 1200 ?rent = (200, withProgress ?rent 100)"
    using loopBody64_full [of ?rent 1200] by (simp add: goal_def)
  have "rawProgress64 200 ?laptop = fl64 (fl64 (2 / 5) * 100)"
    by (simp add: rawProgress64_def goal_def)
  also have "\<dots> = fl64 (7205759403792794 / 2 ^ 54 * 100)"
    by (simp only: fl64_two_fifths)
  also have "\<dots> = 40" by (rule fl64_two_fifths_100)
  finally have raw: "rawProgress64 200 ?laptop = 40" .
  have "toFixed2 40 = 40" by (simp add: toFixed2_def)
  then have "progress (snd (loopBody64 200 ?laptop)) = 40"
    by (simp add: loopBody64_snd withProgress_def raw)
  moreover have "fst (loopBody64 200 ?laptop) = 0"
    using loopBody64_partial_fst [of 200 ?laptop] by (simp add: goal_def)
  moreover have "loopBody64 0 ?trip = (0, withProgress ?trip 0)"
    using loopBody64_empty [of ?trip 0] by (simp add: goal_def)
  ultimately show ?thesis
    by (simp add: scenarioTargets_def distribute64_Cons s1 withProgress_def)
qed

section \<open>Conservation\<close>

lemma largestAmount_nonneg: "0 \<le> largestAmount ps"
  by (induction ps) (simp_all add: largestAmount_def)

lemma largestAmount_ge: "p \<in> set ps \<Longrightarrow> amount p \<le> largestAmount ps"
  by (induction ps) (auto simp: largestAmount_def)

lemma distribute64_exhausted:
  "r \<le> 0 \<Longrightarrow>
   distributeFundsAndCalculateProgress64 ps r =
     map (\<lambda>p. withProgress p (if 0 < amount p then 0 else 100)) ps"
proof (induction ps)
  case Nil
  show ?case by simp
next
  case (Cons p ps)
  show ?case
  proof (cases "0 < amount p")
    case True
    with Cons show ?thesis by (simp add: distribute64_Cons loopBody64_empty)
  next
    case False
    with Cons show ?thesis by (simp add: distribute64_Cons loopBody64_free)
  qed
qed

lemma nothing_recomputed:
  "r \<le> 0 \<Longrightarrow>
   (\<Sum>x\<leftarrow>distributeFundsAndCalculateProgress64 ps r.
      if 0 < amount x then progress x / 100 * amount x else 0) = 0"
  by (induction ps) (simp_all add: distribute64_exhausted withProgress_def)

lemma conservation64_step:
  fixes M :: real
  assumes "onGrid r" and "\<forall>p\<in>set ps. onGrid (amount p)"
    and "\<forall>p\<in>set ps. amount p \<le> M" and "0 \<le> M"
  shows "(\<Sum>x\<leftarrow>distributeFundsAndCalculateProgress64 ps r.
            if 0 < amount x then progress x / 100 * amount x else 0)
         \<le> (1 + 1 / 2 ^ 53) ^ (length ps + 2) * max 0 r + (1 + 1 / 2 ^ 53) * (M / 20000)"
  using assms
proof (induction ps arbitrary: r)
  case Nil
  have "0 \<le> (1 + 1 / 2 ^ 53) ^ 2 * max 0 r" by simp
  moreover have "0 \<le> (1 + 1 / 2 ^ 53) * (M / 20000)" using Nil.prems(4) by simp
  ultimately show ?case by simp
next
  case (Cons p ps)
  define U :: real where "U = 1 + 1 / 2 ^ 53"
  define a where "a = amount p"
  define n where "n = length ps"
  let ?f = "\<lambda>x::IProject. if 0 < amount x then progress x / 100 * amount x else 0"
  let ?\<Phi> = "\<lambda>r. sum_list (map ?f (distributeFundsAndCalculateProgress64 ps r))"
  have U: "1 \<le> U" by (simp add: U_def)
  have Un: "1 \<le> U ^ (n + 2)" using U by (rule one_le_power)
  have Un3: "U ^ (n + 3) = U * U ^ (n + 2)" by (simp add: numeral_3_eq_3)
  have grow: "U ^ (n + 2) \<le> U ^ (n + 3)" using U by (intro power_increasing) simp_all
  have U3: "U ^ 3 \<le> U ^ (n + 3)" using U by (intro power_increasing) simp_all
  have len: "length (p # ps) + 2 = n + 3" by (simp add: n_def)
  have aM: "a \<le> M" using Cons.prems(3) by (simp add: a_def)
  have ga: "onGrid a" using Cons.prems(2) by (simp add: a_def)
  have ih: "onGrid r' \<Longrightarrow> ?\<Phi> r' \<le> U ^ (n + 2) * max 0 r' + U * (M / 20000)" for r'
    using Cons.IH [of r'] Cons.prems(2,3,4) by (simp add: U_def n_def)
  have split: "sum_list (map ?f (distributeFundsAndCalculateProgress64 (p # ps) r)) =
                 ?f (snd (loopBody64 r p)) + ?\<Phi> (fst (loopBody64 r p))"
    by (simp add: distribute64_Cons)
  have goal: "?f (snd (loopBody64 r p)) + ?\<Phi> (fst (loopBody64 r p))
                \<le> U ^ (n + 3) * max 0 r + U * (M / 20000)"
  proof -
    consider (free) "a \<le> 0" | (empty) "0 < a" "r \<le> 0" | (full) "0 < a" "a \<le> r"
      | (partial) "0 < r" "r < a"
      by linarith
    then show ?thesis
    proof cases
      case free
      then have "loopBody64 r p = (r, withProgress p 100)"
        by (simp add: a_def loopBody64_free)
      then have "?f (snd (loopBody64 r p)) + ?\<Phi> (fst (loopBody64 r p)) = ?\<Phi> r"
        using free by (simp add: withProgress_def a_def)
      also have "\<dots> \<le> U ^ (n + 2) * max 0 r + U * (M / 20000)"
        using Cons.prems(1) by (rule ih)
      also have "\<dots> \<le> U ^ (n + 3) * max 0 r + U * (M / 20000)"
        using grow by (simp add: mult_right_mono)
      finally show ?thesis .
    next
      case empty
      then have "loopBody64 r p = (r, withProgress p 0)"
        by (simp add: a_def loopBody64_empty)
      then have "?f (snd (loopBody64 r p)) + ?\<Phi> (fst (loopBody64 r p)) = ?\<Phi> r"
        by (simp add: withProgress_def)
      also have "\<dots> \<le> U ^ (n + 2) * max 0 r + U * (M / 20000)"
        using Cons.prems(1) by (rule ih)
      also have "\<dots> \<le> U ^ (n + 3) * max 0 r + U * (M / 20000)"
        using grow by (simp add: mult_right_mono)
      finally show ?thesis .
    next
      case full
      define r' where "r' = fl64 (r - a)"
      have lb: "loopBody64 r p = (r', withProgress p 100)"
        using full by (simp add: a_def r'_def loopBody64_full)
      have r'0: "0 \<le> r'" unfolding r'_def using full by (intro fl64_nonneg) simp
      have r'g: "onGrid r'" unfolding r'_def by (rule onGrid_fl64)
      have r'le: "r' \<le> U * (r - a)"
        unfolding r'_def U_def using Cons.prems(1) ga full(2) by (rule fl64_difference)
      have "?f (snd (loopBody64 r p)) + ?\<Phi> (fst (loopBody64 r p)) = a + ?\<Phi> r'"
        using full by (simp add: lb withProgress_def a_def)
      also have "\<dots> \<le> a + (U ^ (n + 2) * max 0 r' + U * (M / 20000))"
        using ih [OF r'g] by simp
      also have "\<dots> = a + U ^ (n + 2) * r' + U * (M / 20000)"
        using r'0 by simp
      also have "\<dots> \<le> a + U ^ (n + 2) * (U * (r - a)) + U * (M / 20000)"
        using r'le Un by (simp add: mult_left_mono)
      also have "\<dots> = a + U ^ (n + 3) * (r - a) + U * (M / 20000)"
        by (simp add: Un3 mult.commute mult.left_commute)
      also have "\<dots> = U ^ (n + 3) * r - (U ^ (n + 3) - 1) * a + U * (M / 20000)"
        by (simp add: algebra_simps)
      also have "\<dots> \<le> U ^ (n + 3) * r + U * (M / 20000)"
      proof -
        have "0 \<le> (U ^ (n + 3) - 1) * a"
          using Un grow full(1) by (intro mult_nonneg_nonneg) simp_all
        then show ?thesis by simp
      qed
      finally show ?thesis using full by simp
    next
      case partial
      have "fst (loopBody64 r p) = 0"
        using partial by (simp add: a_def loopBody64_partial_fst)
      then have rest: "?\<Phi> (fst (loopBody64 r p)) = 0" by (simp add: nothing_recomputed)
      have "amount (snd (loopBody64 r p)) = a"
        by (simp add: loopBody64_snd withProgress_def a_def)
      then have this_one: "?f (snd (loopBody64 r p)) = progress (snd (loopBody64 r p)) / 100 * a"
        using partial by simp
      have b1: "progress (snd (loopBody64 r p)) / 100 * a \<le> U ^ 3 * r + U * (a / 20000)"
        unfolding U_def a_def using partial by (intro partial_share) (simp_all add: a_def)
      have b2: "U ^ 3 * r \<le> U ^ (n + 3) * r"
        using U3 partial(1) by (simp add: mult_right_mono)
      have b3: "U * (a / 20000) \<le> U * (M / 20000)"
        using aM U by (intro mult_left_mono) simp_all
      have "?f (snd (loopBody64 r p)) + ?\<Phi> (fst (loopBody64 r p)) =
              progress (snd (loopBody64 r p)) / 100 * a"
        by (simp only: this_one rest add_0_right)
      also have "\<dots> \<le> U ^ (n + 3) * r + U * (M / 20000)"
        using b1 b2 b3 by linarith
      also have "U ^ (n + 3) * r = U ^ (n + 3) * max 0 r"
        using partial(1) by simp
      finally show ?thesis .
    qed
  qed
  show ?case unfolding split len using goal by (simp add: U_def)
qed


lemma fl64_two_thirds: "fl64 (2 / 3) = 6004799503160661 / 2 ^ 53"
  using fl64_eval [of "- 1" "2 / 3"] by (simp add: pow2_def roundTiesToEven_def)

lemma fl64_two_thirds_100: "fl64 (6004799503160661 / 2 ^ 53 * 100) = 4691249611844266 / 2 ^ 46"
  using fl64_eval [of 6 "6004799503160661 / 2 ^ 53 * 100"]
  by (simp add: pow2_def roundTiesToEven_def)

lemma fl64_6667: "fl64 (6667 / 100) = 4691484174324859 / 2 ^ 46"
  using fl64_eval [of 6 "6667 / 100"] by (simp add: pow2_def roundTiesToEven_def)

lemma fl64_2 [simp]: "fl64 2 = 2"
  using fl64_eval [of 1 2] by (simp add: pow2_def roundTiesToEven_def)

lemma fl64_3 [simp]: "fl64 3 = 3"
  using fl64_eval [of 1 3] by (simp add: pow2_def roundTiesToEven_def)

lemma bike_2:
  "map progress (distributeFundsAndCalculateProgress64 [goal ''bike'' 3 ''critical''] 2) =
     [4691484174324859 / 2 ^ 46]"
proof -
  let ?p = "goal ''bike'' 3 ''critical''"
  have "rawProgress64 2 ?p = fl64 (fl64 (2 / 3) * 100)"
    by (simp add: rawProgress64_def goal_def)
  also have "\<dots> = fl64 (6004799503160661 / 2 ^ 53 * 100)"
    by (simp only: fl64_two_thirds)
  also have "\<dots> = 4691249611844266 / 2 ^ 46"
    by (rule fl64_two_thirds_100)
  finally have raw: "rawProgress64 2 ?p = 4691249611844266 / 2 ^ 46" .
  have "toFixed2 (4691249611844266 / 2 ^ 46) = 6667 / 100"
    by (simp add: toFixed2_def)
  then have t: "toFixed2 (rawProgress64 2 ?p) = 6667 / 100"
    by (simp only: raw)
  have c: "min 100 (max 0 (fl64 (6667 / 100))) = fl64 (6667 / 100)"
    using parse_hundredths(1,2) [of 6667] by simp
  have "progress (snd (loopBody64 2 ?p)) =
          min 100 (max 0 (fl64 (toFixed2 (rawProgress64 2 ?p))))"
    by (simp add: loopBody64_snd withProgress_def)
  also have "\<dots> = fl64 (6667 / 100)" by (simp only: t c)
  also have "\<dots> = 4691484174324859 / 2 ^ 46" by (rule fl64_6667)
  finally show ?thesis by (simp add: distribute64_Cons)
qed

text \<open>
  Claim C2, as stated, fails: the percentage is rounded to two decimals, so the money
  recomputed from it can exceed the pool. One project of amount 3 with pool 2 gets
  66.67, and 66.67 / 100 * 3 is more than 2.
\<close>

theorem conservation_counterexample:
  "\<not> (\<Sum>r\<leftarrow>distributeFundsAndCalculateProgress64 [goal ''bike'' 3 ''critical''] 2.
        if 0 < amount r then progress r / 100 * amount r else 0) \<le> max 0 2"
proof -
  let ?out = "distributeFundsAndCalculateProgress64 [goal ''bike'' 3 ''critical''] 2"
  obtain x where out: "?out = [x]"
    using length_distribute64 [of "[goal ''bike'' 3 ''critical'']" 2]
    by (cases ?out) auto
  have "progress x = 4691484174324859 / 2 ^ 46"
    using bike_2 by (simp add: out)
  moreover have "x = snd (loopBody64 2 (goal ''bike'' 3 ''critical''))"
    using out by (simp add: distribute64_Cons)
  then have "amount x = 3"
    by (simp add: loopBody64_snd withProgress_def goal_def)
  ultimately show ?thesis by (simp add: out)
qed

text \<open>
  Claim C2, amended. Let the pool and the amounts be doubles. The total recomputed from
  the percentages exceeds \<open>max 0 pool\<close> by no more than the rounding of one percentage
  to two decimals, which is half a hundredth of a percent of the largest amount (only
  the one project that is funded in part has a rounded percentage below 100), and the
  rounding of the arithmetic, a factor \<open>1 + 2\<^sup>-\<^sup>5\<^sup>3\<close> for each of the at most
  \<open>length ps + 2\<close> rounded operations behind a remainder or a percentage.
\<close>

theorem conservation_up_to_rounding:
  assumes "fl64 pool = pool" and "\<forall>p\<in>set ps. fl64 (amount p) = amount p"
  shows "(\<Sum>r\<leftarrow>distributeFundsAndCalculateProgress64 ps pool.
            if 0 < amount r then progress r / 100 * amount r else 0)
         \<le> (1 + 1 / 2 ^ 53) ^ (length ps + 2) * max 0 pool +
           (1 + 1 / 2 ^ 53) * (largestAmount ps / 20000)"
proof (rule conservation64_step)
  show "onGrid pool" using onGrid_fl64 [of pool] by (simp only: assms(1))
  show "\<forall>p\<in>set ps. onGrid (amount p)"
  proof
    fix p assume "p \<in> set ps"
    with assms(2) have "fl64 (amount p) = amount p" by (rule bspec)
    with onGrid_fl64 [of "amount p"] show "onGrid (amount p)" by simp
  qed
  show "\<forall>p\<in>set ps. amount p \<le> largestAmount ps" by (simp add: largestAmount_ge)
  show "0 \<le> largestAmount ps" by (rule largestAmount_nonneg)
qed

theorem conservation_up_to_rounding_witness:
  "fl64 2 = 2 \<and> map (\<lambda>p. fl64 (amount p)) [goal ''bike'' 3 ''critical''] = [3] \<and>
   (\<Sum>r\<leftarrow>distributeFundsAndCalculateProgress64 [goal ''bike'' 3 ''critical''] 2.
        if 0 < amount r then progress r / 100 * amount r else 0)
     \<le> (1 + 1 / 2 ^ 53) ^ 3 * 2 + (1 + 1 / 2 ^ 53) * (3 / 20000)"
proof -
  have h1: "fl64 2 = 2" by simp
  have h2: "\<forall>p\<in>set [goal ''bike'' 3 ''critical'']. fl64 (amount p) = amount p"
    by (simp add: goal_def)
  have m: "largestAmount [goal ''bike'' 3 ''critical''] = 3"
    by (simp add: largestAmount_def goal_def)
  have l: "length [goal ''bike'' 3 ''critical''] + 2 = 3" by simp
  have x: "max 0 (2::real) = 2" by simp
  have h3: "map (\<lambda>p. fl64 (amount p)) [goal ''bike'' 3 ''critical''] = [3]"
    by (simp add: goal_def)
  from conservation_up_to_rounding [OF h1 h2]
  have "(\<Sum>r\<leftarrow>distributeFundsAndCalculateProgress64 [goal ''bike'' 3 ''critical''] 2.
        if 0 < amount r then progress r / 100 * amount r else 0)
     \<le> (1 + 1 / 2 ^ 53) ^ 3 * 2 + (1 + 1 / 2 ^ 53) * (3 / 20000)"
    by (simp only: m l x)
  with h1 h3 show ?thesis by blast
qed

section \<open>The sort\<close>

lemma mset_insertSorted: "mset (insertSorted c x ys) = add_mset x (mset ys)"
  by (induction ys) simp_all

lemma mset_arraySort: "mset (arraySort c xs) = mset xs"
  by (induction xs) (simp_all add: mset_insertSorted)

lemma set_arraySort: "set (arraySort c xs) = set xs"
  using mset_arraySort [of c xs] by (metis set_mset_mset)

lemma priorityOrder_inj:
  "priorityOrder s = Some k \<Longrightarrow> priorityOrder t = Some k \<Longrightarrow> s = t"
  by (simp add: priorityOrder_def split: if_splits)

lemma SortCompare_valid:
  "priorityOrder (priority a) = Some x \<Longrightarrow> priorityOrder (priority b) = Some y \<Longrightarrow>
   SortCompare comparePriority a b = x - y"
  by (simp add: SortCompare_def comparePriority_def)

lemma insertSorted_insort:
  assumes "priorityOrder (priority x) \<noteq> None"
    and "\<forall>y\<in>set ys. priorityOrder (priority y) \<noteq> None"
  shows "insertSorted comparePriority x ys =
         insort_key (\<lambda>p. the (priorityOrder (priority p))) x ys"
  using assms
proof (induction ys)
  case Nil
  show ?case by simp
next
  case (Cons y ys)
  from Cons.prems obtain a b where
    "priorityOrder (priority x) = Some a" "priorityOrder (priority y) = Some b"
    by auto
  with Cons show ?case by (simp add: SortCompare_valid)
qed

lemma arraySort_sort_key:
  assumes "\<forall>p\<in>set ps. priorityOrder (priority p) \<noteq> None"
  shows "arraySort comparePriority ps = sort_key (\<lambda>p. the (priorityOrder (priority p))) ps"
  using assms
proof (induction ps)
  case Nil
  show ?case by simp
next
  case (Cons p ps)
  then have "arraySort comparePriority ps = sort_key (\<lambda>p. the (priorityOrder (priority p))) ps"
    by simp
  moreover have "\<forall>y\<in>set (arraySort comparePriority ps). priorityOrder (priority y) \<noteq> None"
    using Cons.prems by (simp add: set_arraySort)
  ultimately show ?case
    using Cons.prems insertSorted_insort [of p "arraySort comparePriority ps"] by simp
qed

lemma sorted_tierLe:
  assumes "\<forall>p\<in>set ys. priorityOrder (priority p) \<noteq> None"
    and "sorted (map (\<lambda>p. the (priorityOrder (priority p))) ys)"
  shows "sorted_wrt tierLe ys"
proof -
  have "sorted_wrt (\<lambda>a b. the (priorityOrder (priority a)) \<le> the (priorityOrder (priority b))) ys"
    using assms(2) by (simp add: sorted_map)
  then show ?thesis
  proof (rule sorted_wrt_mono_rel [rotated])
    fix a b assume "a \<in> set ys" "b \<in> set ys"
      and "the (priorityOrder (priority a)) \<le> the (priorityOrder (priority b))"
    moreover have "priorityOrder (priority a) \<noteq> None"
      using assms(1) \<open>a \<in> set ys\<close> by (rule bspec)
    moreover have "priorityOrder (priority b) \<noteq> None"
      using assms(1) \<open>b \<in> set ys\<close> by (rule bspec)
    ultimately show "tierLe a b" by (auto simp: tierLe_def)
  qed
qed

lemma arraySort_sorted:
  assumes "\<forall>p\<in>set ps. priorityOrder (priority p) \<noteq> None"
  shows "sorted_wrt tierLe (arraySort comparePriority ps)"
proof -
  have "sorted (map (\<lambda>p. the (priorityOrder (priority p))) (arraySort comparePriority ps))"
    unfolding arraySort_sort_key [OF assms] by (rule sorted_sort_key)
  moreover have "\<forall>p\<in>set (arraySort comparePriority ps). priorityOrder (priority p) \<noteq> None"
    using assms by (simp add: set_arraySort)
  ultimately show ?thesis by (intro sorted_tierLe)
qed

lemma tierLe_SortCompare: "tierLe a b \<Longrightarrow> SortCompare comparePriority a b \<le> 0"
  by (auto simp: tierLe_def SortCompare_def comparePriority_def split: option.splits)

text \<open>
  The list that \<^const>\<open>processProjectsWithProgress\<close> hands to the allocator is in
  priority order when every tier of the input is one of the four.
\<close>

lemma process_sorts_first:
  "processProjectsWithProgress raw totalEarned =
     Inr (distributeFundsAndCalculateProgress (arraySort comparePriority raw) totalEarned)"
  by (simp add: processProjectsWithProgress_def sortProjectsByPriority_def)

lemma process_input_in_order:
  assumes "\<forall>p\<in>set raw. priorityOrder (priority p) \<noteq> None"
  shows "sorted_wrt (\<lambda>a b. SortCompare comparePriority a b \<le> 0) (arraySort comparePriority raw)"
  using arraySort_sorted [OF assms]
  by (rule sorted_wrt_mono_rel [rotated]) (rule tierLe_SortCompare)

text \<open>
  Claim C1, as stated, fails: no branch of the sort throws. A list of one project whose
  tier is \<^verbatim>\<open>urgent\<close> is returned as it is.
\<close>

theorem invalid_priority_counterexample:
  "priorityOrder ''urgent'' = None \<and>
   sortProjectsByPriority [goal ''visa'' 10 ''urgent''] = Inr [goal ''visa'' 10 ''urgent''] \<and>
   sortProjectsByPriority [goal ''visa'' 10 ''urgent''] \<noteq> Inl InvalidPriorityError"
  by (simp add: sortProjectsByPriority_def priorityOrder_def)

text \<open>
  Claim C1, amended. The sort never fails: for every list, with or without tiers outside
  the four, it returns a reordering of the list. (A tier outside the four makes the
  comparator yield \<^verbatim>\<open>NaN\<close>, which the sort reads as "equal"; only the static type
  of the field keeps such tiers out.)
\<close>

theorem sort_never_fails:
  "\<exists>ys. sortProjectsByPriority ps = Inr ys \<and> mset ys = mset ps"
  by (simp add: sortProjectsByPriority_def mset_arraySort)

text \<open>
  Claim C8. When every tier of the input is one of the four, the sort returns the
  projects in ascending rank (critical 1, high 2, medium 3, low 4), it returns the same
  projects, and for every tier the projects of that tier are in the order they had in
  the input.
\<close>

theorem stable_priority_sort:
  assumes "\<forall>p\<in>set ps. priorityOrder (priority p) \<noteq> None"
  shows "\<exists>ys. sortProjectsByPriority ps = Inr ys \<and>
           sorted_wrt tierLe ys \<and>
           mset ys = mset ps \<and>
           (\<forall>t. filter (\<lambda>p. priority p = t) ys = filter (\<lambda>p. priority p = t) ps) \<and>
           map priorityOrder [''critical'', ''high'', ''medium'', ''low''] =
             [Some 1, Some 2, Some 3, Some 4]"
proof -
  let ?rk = "\<lambda>p::ProjectFromJson. the (priorityOrder (priority p))"
  let ?ys = "arraySort comparePriority ps"
  have ys: "?ys = sort_key ?rk ps" using assms by (rule arraySort_sort_key)
  have valid: "\<forall>p\<in>set ?ys. priorityOrder (priority p) \<noteq> None"
    using assms by (simp add: set_arraySort)
  have s: "sorted_wrt tierLe ?ys" using assms by (rule arraySort_sorted)
  have stable: "filter (\<lambda>p. priority p = t) ?ys = filter (\<lambda>p. priority p = t) ps" for t
  proof (cases "priorityOrder t")
    case None
    have "filter (\<lambda>p. priority p = t) ?ys = []"
      using valid None by (auto simp: filter_empty_conv)
    moreover have "filter (\<lambda>p. priority p = t) ps = []"
      using assms None by (auto simp: filter_empty_conv)
    ultimately show ?thesis by simp
  next
    case (Some k)
    have eq: "priorityOrder (priority p) \<noteq> None \<Longrightarrow> (priority p = t) = (?rk p = k)"
      for p :: ProjectFromJson
      using Some priorityOrder_inj [of "priority p" k t] by auto
    have "filter (\<lambda>p. priority p = t) ?ys = filter (\<lambda>p. ?rk p = k) ?ys"
      using valid eq by (intro filter_cong) auto
    also have "\<dots> = filter (\<lambda>p. ?rk p = k) ps" unfolding ys by (rule sort_key_stable)
    also have "\<dots> = filter (\<lambda>p. priority p = t) ps"
      using assms eq by (intro filter_cong) auto
    finally show ?thesis .
  qed
  have ranks: "map priorityOrder [''critical'', ''high'', ''medium'', ''low''] =
                 [Some 1, Some 2, Some 3, Some 4]"
    by (simp add: priorityOrder_def)
  show ?thesis
    using s stable ranks by (simp add: sortProjectsByPriority_def mset_arraySort)
qed

theorem stable_priority_sort_witness:
  "map (\<lambda>p. priorityOrder (priority p)) unsortedTargets = [Some 4, Some 2, Some 1, Some 2] \<and>
   sortProjectsByPriority unsortedTargets =
     Inr [goal ''rent'' 1000 ''critical'', goal ''B'' 500 ''high'', goal ''A'' 300 ''high'',
          goal ''trip'' 2000 ''low''] \<and>
   (\<exists>ys. sortProjectsByPriority unsortedTargets = Inr ys \<and>
      sorted_wrt tierLe ys \<and>
      filter (\<lambda>p. priority p = ''high'') ys = [goal ''B'' 500 ''high'', goal ''A'' 300 ''high''])"
proof -
  have h: "\<forall>p\<in>set unsortedTargets. priorityOrder (priority p) \<noteq> None"
    by (simp add: unsortedTargets_def goal_def priorityOrder_def)
  have v: "sortProjectsByPriority unsortedTargets =
     Inr [goal ''rent'' 1000 ''critical'', goal ''B'' 500 ''high'', goal ''A'' 300 ''high'',
          goal ''trip'' 2000 ''low'']"
    by (simp add: sortProjectsByPriority_def unsortedTargets_def goal_def SortCompare_def
        comparePriority_def priorityOrder_def)
  have m: "map (\<lambda>p. priorityOrder (priority p)) unsortedTargets =
             [Some 4, Some 2, Some 1, Some 2]"
    by (simp add: unsortedTargets_def goal_def priorityOrder_def)
  have f: "filter (\<lambda>p. priority p = ''high'') unsortedTargets =
             [goal ''B'' 500 ''high'', goal ''A'' 300 ''high'']"
    by (simp add: unsortedTargets_def goal_def)
  from stable_priority_sort [OF h] obtain ys where
    ys: "sortProjectsByPriority unsortedTargets = Inr ys" "sorted_wrt tierLe ys"
      "\<forall>t. filter (\<lambda>p. priority p = t) ys = filter (\<lambda>p. priority p = t) unsortedTargets"
    by blast
  from ys(3) f have "filter (\<lambda>p. priority p = ''high'') ys =
      [goal ''B'' 500 ''high'', goal ''A'' 300 ''high'']" by simp
  with m v ys(1,2) show ?thesis by blast
qed

section \<open>Arguments are not changed\<close>

lemma loopBodyH_step:
  assumes "fieldsAt h r = Some p" and "lookup h result = Some (ArrayCell acc)"
  shows "loopBodyH result rem h r =
           Some (fst (loopBody rem p),
                 (h @ [ObjectCell p (Some (progress (snd (loopBody rem p))))])
                   [result := ArrayCell (acc @ [length h])])"
proof -
  have res: "result < length h" "h ! result = ArrayCell acc"
    using assms(2) by (auto simp: lookup_def split: if_splits)
  show ?thesis
    using assms(1) res
    by (simp add: loopBodyH_def alloc_def setProgress_def getProgress_def push_def lookup_def
        loopBody_def withProgress_def Let_def nth_append)
qed


lemma those_map_Some: "those (map Some xs) = Some xs"
  by (induction xs) simp_all

lemma length_those: "those xs = Some ys \<Longrightarrow> length ys = length xs"
  by (induction xs arbitrary: ys) (auto split: option.splits)

lemma cellOf_loopBody:
  "cellOf (snd (loopBody rem p)) = ObjectCell p (Some (progress (snd (loopBody rem p))))"
  by (simp add: cellOf_def truncate_loopBody)

lemma fieldsAt_frame:
  assumes "fieldsAt h r = Some p" and "lookup h result = Some (ArrayCell acc)"
  shows "fieldsAt ((h @ cs)[result := c]) r = Some p"
proof -
  have "r < length h" "r \<noteq> result"
    using assms by (auto simp: fieldsAt_def lookup_def split: if_splits option.splits cell.splits)
  then show ?thesis
    using assms(1) by (simp add: fieldsAt_def lookup_def nth_append split: if_splits)
qed

lemma those_fieldsAt_frame:
  assumes "those (map (fieldsAt h) rs) = Some ps" and "lookup h result = Some (ArrayCell acc)"
  shows "those (map (fieldsAt ((h @ cs)[result := c])) rs) = Some ps"
  using assms(1)
proof (induction rs arbitrary: ps)
  case Nil
  then show ?case by simp
next
  case (Cons r rs)
  from Cons.prems obtain p ps' where p: "fieldsAt h r = Some p"
    "those (map (fieldsAt h) rs) = Some ps'" "ps = p # ps'"
    by (auto split: option.splits)
  from p(1) assms(2) have "fieldsAt ((h @ cs)[result := c]) r = Some p"
    by (rule fieldsAt_frame)
  with Cons.IH [OF p(2)] p(3) show ?case by simp
qed

lemma distributeLoopH_run:
  assumes "those (map (fieldsAt h) rs) = Some ps"
    and "lookup h result = Some (ArrayCell acc)"
  shows "distributeLoopH result rem h rs =
           Some ((h @ map cellOf (distributeFundsAndCalculateProgress ps rem))
                   [result := ArrayCell (acc @ [length h ..< length h + length ps])])"
  using assms
proof (induction rs arbitrary: h rem acc ps)
  case Nil
  then have "result < length h" "h ! result = ArrayCell acc"
    by (auto simp: lookup_def split: if_splits)
  then have "h[result := ArrayCell acc] = h"
    by (simp add: list_update_same_conv)
  with Nil show ?case by simp
next
  case (Cons r rs)
  from Cons.prems(1) obtain p ps' where p: "fieldsAt h r = Some p"
    "those (map (fieldsAt h) rs) = Some ps'" "ps = p # ps'"
    by (auto split: option.splits)
  let ?q = "snd (loopBody rem p)"
  let ?rem' = "fst (loopBody rem p)"
  let ?h' = "(h @ [cellOf ?q])[result := ArrayCell (acc @ [length h])]"
  have res: "result < length h"
    using Cons.prems(2) by (auto simp: lookup_def split: if_splits)
  have step: "loopBodyH result rem h r = Some (?rem', ?h')"
    using p(1) Cons.prems(2) by (simp add: loopBodyH_step cellOf_loopBody)
  have wf': "those (map (fieldsAt ?h') rs) = Some ps'"
    using p(2) Cons.prems(2) by (rule those_fieldsAt_frame)
  have res': "lookup ?h' result = Some (ArrayCell (acc @ [length h]))"
    using res by (simp add: lookup_def)
  have "distributeLoopH result rem h (r # rs) = distributeLoopH result ?rem' ?h' rs"
    by (simp add: step)
  also have "\<dots> = Some ((?h' @ map cellOf (distributeFundsAndCalculateProgress ps' ?rem'))
                   [result := ArrayCell ((acc @ [length h]) @ [length ?h' ..< length ?h' + length ps'])])"
    using wf' res' by (rule Cons.IH)
  also have "(?h' @ map cellOf (distributeFundsAndCalculateProgress ps' ?rem'))
                   [result := ArrayCell ((acc @ [length h]) @ [length ?h' ..< length ?h' + length ps'])]
           = (h @ map cellOf (distributeFundsAndCalculateProgress ps rem))
                   [result := ArrayCell (acc @ [length h ..< length h + length ps])]"
  proof -
    have "[length h ..< length h + length ps] =
            length h # [length ?h' ..< length ?h' + length ps']"
      using p(3) by (simp add: upt_conv_Cons del: upt_Suc)
    then show ?thesis
      using res by (simp add: p(3) distribute_Cons list_update_append1 del: upt_Suc)
  qed
  finally show ?case .
qed

lemma map_insertSorted:
  "map f (insertSorted (\<lambda>x y. c (f x) (f y)) z zs) = insertSorted c (f z) (map f zs)"
  by (induction zs) (simp_all add: SortCompare_def)

lemma map_arraySort:
  "map f (arraySort (\<lambda>x y. c (f x) (f y)) zs) = arraySort c (map f zs)"
  by (induction zs) (simp_all add: map_insertSorted)

lemma those_zip:
  "those (map f rs) = Some ps \<Longrightarrow> \<forall>z\<in>set (zip rs ps). f (fst z) = Some (snd z)"
proof (induction rs arbitrary: ps)
  case Nil
  then show ?case by simp
next
  case (Cons r rs)
  from Cons.prems obtain p ps' where p: "f r = Some p"
    "those (map f rs) = Some ps'" "ps = p # ps'"
    by (auto split: option.splits)
  with Cons.IH [OF p(2)] show ?case by simp
qed

lemma those_unzip:
  "\<forall>z\<in>set zs. f (fst z) = Some (snd z) \<Longrightarrow> those (map f (map fst zs)) = Some (map snd zs)"
  by (induction zs) simp_all

lemma fieldsAt_append: "fieldsAt h r = Some p \<Longrightarrow> fieldsAt (h @ cs) r = Some p"
  by (auto simp: fieldsAt_def lookup_def nth_append split: if_splits)

lemma those_fieldsAt_append:
  assumes "those (map (fieldsAt h) rs) = Some ps"
  shows "those (map (fieldsAt (h @ cs)) rs) = Some ps"
proof -
  have "\<forall>z\<in>set (zip rs ps). fieldsAt h (fst z) = Some (snd z)"
    using assms by (rule those_zip)
  then have "\<forall>z\<in>set (zip rs ps). fieldsAt (h @ cs) (fst z) = Some (snd z)"
    by (simp add: fieldsAt_append)
  then have "those (map (fieldsAt (h @ cs)) (map fst (zip rs ps))) = Some (map snd (zip rs ps))"
    by (rule those_unzip)
  moreover have "length ps = length rs"
    using length_those [OF assms] by simp
  ultimately show ?thesis by simp
qed

lemma objectAt_cellOf:
  assumes "i < length qs"
  shows "objectAt (h @ c # map cellOf qs) (length h + 1 + i) = Some (qs ! i)"
proof -
  have "withProgress (ProjectFromJson.truncate q) (progress q) = q" for q :: IProject
    by (simp add: withProgress_def ProjectFromJson.truncate_def)
  then show ?thesis
    using assms by (simp add: objectAt_def lookup_def nth_append cellOf_def)
qed

lemma results_read_back:
  "map (objectAt (h @ c # map cellOf qs)) [length h + 1 ..< length h + 1 + length qs] = map Some qs"
proof (rule nth_equalityI)
  show "length (map (objectAt (h @ c # map cellOf qs)) [length h + 1 ..< length h + 1 + length qs]) =
        length (map Some qs)"
    by (simp del: upt_Suc)
next
  fix i
  assume "i < length (map (objectAt (h @ c # map cellOf qs))
                        [length h + 1 ..< length h + 1 + length qs])"
  then have i: "i < length qs" by (simp del: upt_Suc)
  then have "[length h + 1 ..< length h + 1 + length qs] ! i = length h + 1 + i"
    by (simp del: upt_Suc)
  with i show "map (objectAt (h @ c # map cellOf qs))
                 [length h + 1 ..< length h + 1 + length qs] ! i = map Some qs ! i"
    using objectAt_cellOf [OF i, of h c] by (simp del: upt_Suc)
qed

text \<open>
  Claim C9. Let an array of the store denote a list of projects. The sort returns a
  reference that was not in the store before (a new array), the cells that were in the
  store are all as they were (the argument array and its records are unchanged), and
  the new array denotes the sorted list. The allocator returns a new array whose
  elements are all new objects, the cells that were in the store are all as they were,
  and the new array denotes the result list of the allocator.
\<close>

theorem inputs_not_mutated:
  assumes "projectsAt h a = Some ps"
  shows "(\<exists>r h' ys. sortProjectsByPriorityH h a = Some (r, h') \<and>
            length h \<le> r \<and> take (length h) h' = h \<and>
            projectsAt h' r = Some ys \<and> sortProjectsByPriority ps = Inr ys) \<and>
         (\<exists>r h' rs. distributeFundsAndCalculateProgressH h a pool = Some (r, h') \<and>
            length h \<le> r \<and> take (length h) h' = h \<and>
            lookup h' r = Some (ArrayCell rs) \<and> (\<forall>x\<in>set rs. length h \<le> x) \<and>
            resultsAt h' r = Some (distributeFundsAndCalculateProgress ps pool))"
proof -
  from assms obtain refs where refs: "lookup h a = Some (ArrayCell refs)"
    "those (map (fieldsAt h) refs) = Some ps"
    by (auto simp: projectsAt_def split: option.splits cell.splits)
  have len: "length ps = length refs"
    using length_those [OF refs(2)] by simp
  have sort_part: "\<exists>r h' ys. sortProjectsByPriorityH h a = Some (r, h') \<and>
            length h \<le> r \<and> take (length h) h' = h \<and>
            projectsAt h' r = Some ys \<and> sortProjectsByPriority ps = Inr ys"
  proof -
    let ?zs = "arraySort (\<lambda>x y. comparePriority (snd x) (snd y)) (zip refs ps)"
    let ?h' = "h @ [ArrayCell (map fst ?zs)]"
    have run: "sortProjectsByPriorityH h a = Some (length h, ?h')"
      using refs by (simp add: sortProjectsByPriorityH_def alloc_def)
    have "\<forall>z\<in>set (zip refs ps). fieldsAt h (fst z) = Some (snd z)"
      using refs(2) by (rule those_zip)
    then have "\<forall>z\<in>set ?zs. fieldsAt ?h' (fst z) = Some (snd z)"
      by (simp add: set_arraySort fieldsAt_append)
    then have "those (map (fieldsAt ?h') (map fst ?zs)) = Some (map snd ?zs)"
      by (rule those_unzip)
    moreover have "map snd ?zs = arraySort comparePriority ps"
      using len by (simp add: map_arraySort)
    ultimately have "projectsAt ?h' (length h) = Some (arraySort comparePriority ps)"
      by (simp add: projectsAt_def lookup_def)
    with run show ?thesis by (simp add: sortProjectsByPriority_def)
  qed
  have dist_part: "\<exists>r h' rs. distributeFundsAndCalculateProgressH h a pool = Some (r, h') \<and>
            length h \<le> r \<and> take (length h) h' = h \<and>
            lookup h' r = Some (ArrayCell rs) \<and> (\<forall>x\<in>set rs. length h \<le> x) \<and>
            resultsAt h' r = Some (distributeFundsAndCalculateProgress ps pool)"
  proof -
    let ?out = "distributeFundsAndCalculateProgress ps pool"
    let ?rs = "[length h + 1 ..< length h + 1 + length ps]"
    let ?h' = "h @ ArrayCell ?rs # map cellOf ?out"
    have wf: "those (map (fieldsAt (h @ [ArrayCell []])) refs) = Some ps"
      using refs(2) by (rule those_fieldsAt_append)
    have "distributeLoopH (length h) pool (h @ [ArrayCell []]) refs =
            Some (((h @ [ArrayCell []]) @ map cellOf ?out)
                    [length h := ArrayCell ([] @ [length (h @ [ArrayCell []]) ..<
                                                   length (h @ [ArrayCell []]) + length ps])])"
      using wf by (rule distributeLoopH_run) (simp add: lookup_def)
    then have loop: "distributeLoopH (length h) pool (h @ [ArrayCell []]) refs = Some ?h'"
      by (simp del: upt_Suc add: list_update_append)
    have run: "distributeFundsAndCalculateProgressH h a pool = Some (length h, ?h')"
      using refs(1) loop by (simp add: distributeFundsAndCalculateProgressH_def alloc_def del: upt_Suc)
    have "lookup ?h' (length h) = Some (ArrayCell ?rs)"
      by (simp add: lookup_def del: upt_Suc)
    moreover have "\<forall>x\<in>set ?rs. length h \<le> x" by (simp del: upt_Suc)
    moreover have "resultsAt ?h' (length h) = Some ?out"
      using results_read_back [of h "ArrayCell ?rs" ?out]
      by (simp add: resultsAt_def lookup_def those_map_Some del: upt_Suc)
    ultimately show ?thesis using run by (simp del: upt_Suc)
  qed
  from sort_part dist_part show ?thesis by (rule conjI)
qed


theorem inputs_not_mutated_witness:
  "projectsAt exampleHeap 4 = Some unsortedTargets \<and>
   (\<exists>r h'. sortProjectsByPriorityH exampleHeap 4 = Some (r, h') \<and>
      take (length exampleHeap) h' = exampleHeap) \<and>
   (\<exists>r h'. distributeFundsAndCalculateProgressH exampleHeap 4 1200 = Some (r, h') \<and>
      take (length exampleHeap) h' = exampleHeap \<and>
      resultsAt h' r = Some (distributeFundsAndCalculateProgress unsortedTargets 1200))"
proof -
  have h: "projectsAt exampleHeap 4 = Some unsortedTargets"
    by (simp add: projectsAt_def exampleHeap_def unsortedTargets_def lookup_def fieldsAt_def)
  from inputs_not_mutated [OF h, of 1200] h show ?thesis by blast
qed

end
